theory Spec2Isabelle
  imports Complex_Main "HOL-Library.AList" "HOL-Library.List_Lexorder" "HOL-Library.Char_ord"
begin

section \<open>Conventions of the embedding\<close>

text \<open>
  The development embeds three modules of the repository:
  \<^verbatim>\<open>scripts/hybrid_graph.py\<close>, \<^verbatim>\<open>scripts/correlation_tracker.py\<close> and
  \<^verbatim>\<open>scripts/call_graph.py\<close>.

  \<^item> A Python \<^verbatim>\<open>float\<close> is a \<^typ>\<open>real\<close>: arithmetic is exact, rounding is not
    modelled. A Python \<^verbatim>\<open>int\<close> is an \<^typ>\<open>int\<close>.
  \<^item> A Python \<^verbatim>\<open>str\<close> is a \<^typ>\<open>string\<close>; comparison of strings is the
    lexicographic order of the characters.
  \<^item> A Python \<^verbatim>\<open>dict\<close> is an association list in insertion order: a lookup is
    \<^const>\<open>map_of\<close>, a store is \<^const>\<open>AList.update\<close> (an existing key keeps its
    place, a new key goes to the end), iteration runs through the list.
  \<^item> A Python \<^verbatim>\<open>set\<close> is the list of its members in the order in which iteration
    yields them. The readers of a set below use nothing but that order.
  \<^item> A reading of the clock is an argument of the operation that reads it.
\<close>

subsection \<open>Dictionaries and sets\<close>

definition set_add :: "'a \<Rightarrow> 'a list \<Rightarrow> 'a list" where
  "set_add x xs = (if x \<in> set xs then xs else xs @ [x])"


text \<open>\<^verbatim>\<open>defaultdict(set)\<close>: reading a missing key yields the empty set.\<close>

definition get_set :: "('k \<times> 'a list) list \<Rightarrow> 'k \<Rightarrow> 'a list" where
  "get_set d k = (case map_of d k of None \<Rightarrow> [] | Some xs \<Rightarrow> xs)"

text \<open>\<^verbatim>\<open>d[k].add(x)\<close> on a \<^verbatim>\<open>defaultdict(set)\<close>.\<close>

definition index_add :: "'k \<Rightarrow> 'a \<Rightarrow> ('k \<times> 'a list) list \<Rightarrow> ('k \<times> 'a list) list" where
  "index_add k x d = AList.update k (set_add x (get_set d k)) d"

section \<open>The hybrid graph (hybrid\_graph.py)\<close>

record HybridNode =
  node_id :: string
  node_type :: string
  path :: string
  name :: string
  semantic_embedding :: "real list"
  structural_score :: real
  temporal_score :: real
  comod_score :: real
  last_accessed :: string
  access_count :: int
  last_modified :: string

record HybridEdge =
  source :: string
  target :: string
  structural_weight :: real
  temporal_weight :: real
  comod_weight :: real
  semantic_weight :: real
  relationship_types :: "string list"
  last_updated :: string

record HybridGraph =
  graph_root :: string
  nodes :: "(string \<times> HybridNode) list"
  edges :: "(string \<times> HybridEdge) list"
  neighbors :: "(string \<times> string list) list"
  access_history :: "(string \<times> string) list"
  comod_matrix :: "(string \<times> (string \<times> int) list) list"

text \<open>\<^verbatim>\<open>HybridGraph(root=root)\<close>: every container starts empty.\<close>

definition empty_graph :: "string \<Rightarrow> HybridGraph" where
  "empty_graph r = \<lparr>graph_root = r, nodes = [], edges = [], neighbors = [],
     access_history = [], comod_matrix = []\<rparr>"

text \<open>\<^verbatim>\<open>HybridEdge(source=source, target=target)\<close> with the defaults of the dataclass.\<close>

definition new_edge :: "string \<Rightarrow> string \<Rightarrow> HybridEdge" where
  "new_edge s t = \<lparr>source = s, target = t, structural_weight = 0, temporal_weight = 0,
     comod_weight = 0, semantic_weight = 0, relationship_types = [], last_updated = []\<rparr>"


definition edge_key :: "string \<Rightarrow> string \<Rightarrow> string" where
  "edge_key s t = s @ ''|'' @ t"


text \<open>The branch of \<^verbatim>\<open>add_edge\<close> that routes the weight into its slot.\<close>

definition update_weight :: "string \<Rightarrow> real \<Rightarrow> HybridEdge \<Rightarrow> HybridEdge" where
  "update_weight relationship_type weight e =
     (if relationship_type \<in> {''calls'', ''imports'', ''inherits''} then
        e\<lparr>structural_weight := max (structural_weight e) weight\<rparr>
      else if relationship_type = ''accessed_together'' then
        e\<lparr>temporal_weight := min 1 (temporal_weight e + weight * 0.1)\<rparr>
      else if relationship_type = ''modified_together'' then
        e\<lparr>comod_weight := min 1 (comod_weight e + weight * 0.1)\<rparr>
      else if relationship_type = ''similar'' then
        e\<lparr>semantic_weight := max (semantic_weight e) weight\<rparr>
      else e)"

definition add_edge ::
  "HybridGraph \<Rightarrow> string \<Rightarrow> string \<Rightarrow> string \<Rightarrow> real \<Rightarrow> string \<Rightarrow> HybridGraph" where
  "add_edge g src tgt relationship_type weight now =
     (let edge_id = edge_key src tgt;
          e0 = (case map_of (edges g) edge_id of
                  None \<Rightarrow> new_edge src tgt
                | Some e \<Rightarrow> e);
          e1 = e0\<lparr>last_updated := now\<rparr>;
          e2 = (if relationship_type \<notin> set (relationship_types e1)
                then e1\<lparr>relationship_types := relationship_types e1 @ [relationship_type]\<rparr>
                else e1);
          e3 = update_weight relationship_type weight e2
      in g\<lparr>edges := AList.update edge_id e3 (edges g),
           neighbors := index_add tgt src (index_add src tgt (neighbors g))\<rparr>)"

text \<open>The weight slots of the edge stored under \<^verbatim>\<open>"x|y"\<close>; an absent edge has the
  weights of a new one.\<close>

definition edge_of :: "HybridGraph \<Rightarrow> string \<Rightarrow> string \<Rightarrow> HybridEdge" where
  "edge_of g x y = (case map_of (edges g) (edge_key x y) of
                      None \<Rightarrow> new_edge x y
                    | Some e \<Rightarrow> e)"

text \<open>A run of \<^verbatim>\<open>add_edge(x, y, kind, w)\<close> calls, one per clock reading.\<close>

definition add_edge_repeat ::
  "HybridGraph \<Rightarrow> string \<Rightarrow> string \<Rightarrow> string \<Rightarrow> real \<Rightarrow> string list \<Rightarrow> HybridGraph" where
  "add_edge_repeat g x y kind w nows = fold (\<lambda>now h. add_edge h x y kind w now) nows g"

section \<open>Temporal access tracking\<close>

text \<open>
  The loop \<^verbatim>\<open>for other_id in others: self.add_edge(node_id, other_id, kind, weight=w)\<close>.
  Every call of \<^verbatim>\<open>add_edge\<close> reads the clock; \<open>clock k\<close> is the reading of the
  \<open>k\<close>-th call.
\<close>

fun add_edges ::
  "HybridGraph \<Rightarrow> string \<Rightarrow> string list \<Rightarrow> string \<Rightarrow> real \<Rightarrow> (nat \<Rightarrow> string) \<Rightarrow> HybridGraph" where
  "add_edges g nid [] kind w clock = g"
| "add_edges g nid (other # others) kind w clock =
     add_edges (add_edge g nid other kind w (clock 0)) nid others kind w (\<lambda>k. clock (Suc k))"

text \<open>\<^verbatim>\<open>xs[-n:]\<close> for a positive \<open>n\<close>: the last \<open>n\<close> entries, all of them when there are
  fewer.\<close>

definition last_n :: "nat \<Rightarrow> 'a list \<Rightarrow> 'a list" where
  "last_n n xs = drop (length xs - n) xs"

text \<open>The history after the append and the cut to the last 1000 accesses.\<close>

definition history_after :: "HybridGraph \<Rightarrow> string \<Rightarrow> string \<Rightarrow> (string \<times> string) list" where
  "history_after g nid timestamp =
     (let h = access_history g @ [(nid, timestamp)]
      in if length h > 1000 then last_n 1000 h else h)"

text \<open>The ids the access is paired with: \<^verbatim>\<open>recent[-5:]\<close>, where \<^verbatim>\<open>recent\<close> lists the
  other ids of the history whose time stamp is after the cutoff.\<close>

definition paired_ids :: "HybridGraph \<Rightarrow> string \<Rightarrow> string \<Rightarrow> string \<Rightarrow> string list" where
  "paired_ids g nid timestamp cutoff =
     last_n 5 (map fst (filter (\<lambda>p. snd p > cutoff \<and> fst p \<noteq> nid) (history_after g nid timestamp)))"

text \<open>
  \<^verbatim>\<open>record_access\<close>. \<open>timestamp\<close> is the first reading of the clock (with its
  \<^verbatim>\<open>'Z'\<close>), \<open>cutoff\<close> the second reading less five minutes, \<open>clock\<close> the readings of
  the \<^verbatim>\<open>add_edge\<close> calls.
\<close>

definition record_access ::
  "HybridGraph \<Rightarrow> string \<Rightarrow> string \<Rightarrow> string \<Rightarrow> (nat \<Rightarrow> string) \<Rightarrow> HybridGraph" where
  "record_access g nid timestamp cutoff clock =
     (let g1 = g\<lparr>access_history := history_after g nid timestamp\<rparr>;
          g2 = (case map_of (nodes g1) nid of
                  None \<Rightarrow> g1
                | Some n \<Rightarrow> g1\<lparr>nodes := AList.update nid
                    (n\<lparr>last_accessed := timestamp, access_count := access_count n + 1\<rparr>)
                    (nodes g1)\<rparr>)
      in add_edges g2 nid (paired_ids g nid timestamp cutoff) ''accessed_together'' 0.5 clock)"

text \<open>A run of accesses of the same id, each with its readings of the clock.\<close>

fun record_accesses ::
  "HybridGraph \<Rightarrow> string \<Rightarrow> (string \<times> string \<times> (nat \<Rightarrow> string)) list \<Rightarrow> HybridGraph" where
  "record_accesses g nid [] = g"
| "record_accesses g nid ((timestamp, cutoff, clock) # rs) =
     record_accesses (record_access g nid timestamp cutoff clock) nid rs"

text \<open>Every access of the run is paired with \<open>b\<close>: a co-occurrence of the two ids.\<close>

fun cooccurrences ::
  "HybridGraph \<Rightarrow> string \<Rightarrow> string \<Rightarrow> (string \<times> string \<times> (nat \<Rightarrow> string)) list \<Rightarrow> bool" where
  "cooccurrences g nid b [] = True"
| "cooccurrences g nid b ((timestamp, cutoff, clock) # rs) =
     (b \<in> set (paired_ids g nid timestamp cutoff) \<and>
      cooccurrences (record_access g nid timestamp cutoff clock) nid b rs)"

text \<open>No stored edge has a temporal weight above 1.\<close>

definition temporal_capped :: "HybridGraph \<Rightarrow> bool" where
  "temporal_capped g = list_all (\<lambda>p. temporal_weight (snd p) \<le> 1) (edges g)"

text \<open>A run for the saturation scenario: \<^verbatim>\<open>b.py\<close> was accessed at 00:05, and
  \<^verbatim>\<open>a.py\<close> is then accessed \<open>n\<close> times at 00:06, the cutoff being 00:01.\<close>

definition saturation_graph :: HybridGraph where
  "saturation_graph =
     (empty_graph ''/repo'')\<lparr>access_history := [(''b.py'', ''2024-01-01T00:05:00Z'')]\<rparr>"

definition saturation_reads :: "nat \<Rightarrow> (string \<times> string \<times> (nat \<Rightarrow> string)) list" where
  "saturation_reads n =
     replicate n (''2024-01-01T00:06:00Z'', ''2024-01-01T00:01:00Z'', \<lambda>k. ''2024-01-01T00:06:00Z'')"

section \<open>Co-modification in the hybrid graph\<close>

text \<open>An entry of a \<^verbatim>\<open>defaultdict(lambda: defaultdict(int))\<close>: a missing row or a missing
  column reads as 0.\<close>

definition comod_get :: "(string \<times> (string \<times> int) list) list \<Rightarrow> string \<Rightarrow> string \<Rightarrow> int" where
  "comod_get m f1 f2 =
     (case map_of m f1 of
        None \<Rightarrow> 0
      | Some row \<Rightarrow> (case map_of row f2 of None \<Rightarrow> 0 | Some c \<Rightarrow> c))"

text \<open>\<^verbatim>\<open>m[f1][f2] += 1\<close>: the row and the entry are created when missing.\<close>

definition comod_incr ::
  "string \<Rightarrow> string \<Rightarrow> (string \<times> (string \<times> int) list) list \<Rightarrow> (string \<times> (string \<times> int) list) list" where
  "comod_incr f1 f2 m =
     (let row = (case map_of m f1 of None \<Rightarrow> [] | Some r \<Rightarrow> r);
          c = (case map_of row f2 of None \<Rightarrow> 0 | Some c \<Rightarrow> c)
      in AList.update f1 (AList.update f2 (c + 1) row) m)"

text \<open>The body of the inner loop of \<^verbatim>\<open>record_comodification\<close>.\<close>

definition comod_pair :: "HybridGraph \<Rightarrow> string \<Rightarrow> string \<Rightarrow> string \<Rightarrow> HybridGraph" where
  "comod_pair g f1 f2 now =
     (let m = comod_incr f2 f1 (comod_incr f1 f2 (comod_matrix g));
          count = comod_get m f1 f2;
          weight = min 1 (real_of_int count * 0.2)
      in add_edge (g\<lparr>comod_matrix := m\<rparr>) f1 f2 ''modified_together'' weight now)"

text \<open>\<^verbatim>\<open>for f2 in files[i+1:]\<close>, the clock being read once per pair.\<close>

fun comod_inner :: "HybridGraph \<Rightarrow> string \<Rightarrow> string list \<Rightarrow> (nat \<Rightarrow> string) \<Rightarrow> HybridGraph" where
  "comod_inner g f1 [] clock = g"
| "comod_inner g f1 (f2 # fs) clock =
     comod_inner (comod_pair g f1 f2 (clock 0)) f1 fs (\<lambda>k. clock (Suc k))"

text \<open>\<^verbatim>\<open>for i, f1 in enumerate(files)\<close>.\<close>

fun record_comodification :: "HybridGraph \<Rightarrow> string list \<Rightarrow> (nat \<Rightarrow> string) \<Rightarrow> HybridGraph" where
  "record_comodification g [] clock = g"
| "record_comodification g (f1 # fs) clock =
     record_comodification (comod_inner g f1 fs clock) fs (\<lambda>k. clock (length fs + k))"

text \<open>A graph with a history of co-modification: \<^verbatim>\<open>a.py\<close> changed four times with
  \<^verbatim>\<open>b.py\<close> and twice with \<^verbatim>\<open>d.py\<close>.\<close>

definition comod_example :: HybridGraph where
  "comod_example = (empty_graph ''/repo'')\<lparr>comod_matrix :=
     [(''a.py'', [(''b.py'', 4), (''d.py'', 2)]), (''b.py'', [(''a.py'', 4)]),
      (''d.py'', [(''a.py'', 2)])]\<rparr>"

section \<open>Queries of the hybrid graph\<close>






















section \<open>Persistence\<close>








section \<open>Strings of the commit log\<close>









section \<open>The call graph (call\_graph.py): data\<close>

record GraphNode =
  gn_name :: string
  gn_node_type :: string
  gn_file :: string
  gn_line :: int
  qualified_name :: string

record GraphEdge =
  ge_source :: string
  ge_target :: string
  edge_type :: string
  ge_file :: string
  ge_line :: int

record CallGraph =
  cg_root :: string
  cg_nodes :: "(string \<times> GraphNode) list"
  cg_edges :: "GraphEdge list"
  callers :: "(string \<times> string list) list"
  callees :: "(string \<times> string list) list"

definition empty_call_graph :: "string \<Rightarrow> CallGraph" where
  "empty_call_graph r = \<lparr>cg_root = r, cg_nodes = [], cg_edges = [], callers = [], callees = []\<rparr>"

definition cg_add_node :: "CallGraph \<Rightarrow> GraphNode \<Rightarrow> CallGraph" where
  "cg_add_node graph node = graph\<lparr>cg_nodes := AList.update (qualified_name node) node (cg_nodes graph)\<rparr>"

text \<open>\<^verbatim>\<open>CallGraph.add_edge\<close>: the edge is appended, and the two indexes get the source and
  the target unless they are listed already.\<close>

definition cg_add_edge :: "CallGraph \<Rightarrow> GraphEdge \<Rightarrow> CallGraph" where
  "cg_add_edge graph edge =
     graph\<lparr>cg_edges := cg_edges graph @ [edge],
           callers := index_add (ge_target edge) (ge_source edge) (callers graph),
           callees := index_add (ge_source edge) (ge_target edge) (callees graph)\<rparr>"

section \<open>Building the hybrid graph\<close>












section \<open>The co-modification miner (correlation\_tracker.py)\<close>
















section \<open>The structural extractor (call\_graph.py)\<close>

text \<open>
  The syntax tree of \<^verbatim>\<open>ast.parse\<close>, as far as \<^verbatim>\<open>CallGraphBuilder\<close> tells its nodes
  apart. The children of a node stand in the order of its fields, which is the order in
  which \<^verbatim>\<open>generic_visit\<close> visits them.

  \<^item> \<open>Call lineno func args\<close>: the arguments and then the keyword values are the
    list \<open>args\<close>.
  \<^item> \<open>OtherExpr es\<close>: any other expression, with its child expressions.
  \<^item> \<open>FunctionDef lineno name args body decorator_list returns\<close>, also for
    \<^verbatim>\<open>AsyncFunctionDef\<close>: \<open>args\<close> are the expressions of the argument list (annotations
    and defaults), \<open>returns\<close> holds the return annotation when there is one.
  \<^item> \<open>ClassDef lineno name bases keyword_values body decorator_list\<close>.
  \<^item> \<open>Import lineno names\<close> and \<open>ImportFrom lineno module names\<close>: an alias is the pair
    of its name and its \<^verbatim>\<open>asname\<close>.
  \<^item> \<open>OtherStmt es ss\<close>: any other statement (also an exception handler or a case of a
    match), with its child expressions and then its child statements.
\<close>

datatype expr =
    Name string
  | Attribute expr string
  | Call int expr "expr list"
  | OtherExpr "expr list"

datatype stmt =
    FunctionDef int string "expr list" "stmt list" "expr list" "expr list"
  | ClassDef int string "expr list" "expr list" "stmt list" "expr list"
  | Import int "(string \<times> string option) list"
  | ImportFrom int "string option" "(string \<times> string option) list"
  | OtherStmt "expr list" "stmt list"

record Builder =
  graph :: CallGraph
  file_path :: string
  module_nm :: string
  current_class :: "string option"
  current_function :: "string option"
  import_aliases :: "(string \<times> string) list"

text \<open>\<^verbatim>\<open>CallGraphBuilder(graph, file_path, module_nm)\<close>.\<close>

definition new_builder :: "CallGraph \<Rightarrow> string \<Rightarrow> string \<Rightarrow> Builder" where
  "new_builder g p m = \<lparr>graph = g, file_path = p, module_nm = m,
     current_class = None, current_function = None, import_aliases = []\<rparr>"

text \<open>The truth value of an optional string: \<^verbatim>\<open>None\<close> and the empty string are false.\<close>

definition truthy :: "string option \<Rightarrow> bool" where
  "truthy s = (case s of None \<Rightarrow> False | Some v \<Rightarrow> v \<noteq> [])"

text \<open>\<^verbatim>\<open>'.'.join(parts)\<close>.\<close>

fun join_dots :: "string list \<Rightarrow> string" where
  "join_dots [] = []"
| "join_dots [p] = p"
| "join_dots (p # q # ps) = p @ ''.'' @ join_dots (q # ps)"

definition get_current_scope :: "Builder \<Rightarrow> string" where
  "get_current_scope b =
     join_dots ([module_nm b]
       @ (if truthy (current_class b) then [the (current_class b)] else [])
       @ (if truthy (current_function b) then [the (current_function b)] else []))"

text \<open>\<^verbatim>\<open>self.imports.get(id, id)\<close>.\<close>

definition resolve :: "(string \<times> string) list \<Rightarrow> string \<Rightarrow> string" where
  "resolve imps i = (case map_of imps i of None \<Rightarrow> i | Some t \<Rightarrow> t)"

text \<open>The list \<^verbatim>\<open>parts\<close> of \<^verbatim>\<open>_get_name\<close> after the walk down an attribute chain: the
  attributes from the outermost inwards, then the resolved root when the root is a name.\<close>

fun attr_parts :: "(string \<times> string) list \<Rightarrow> expr \<Rightarrow> string list" where
  "attr_parts imps (Attribute v a) = a # attr_parts imps v"
| "attr_parts imps (Name i) = [resolve imps i]"
| "attr_parts imps e = []"

fun get_name :: "(string \<times> string) list \<Rightarrow> expr \<Rightarrow> string option" where
  "get_name imps (Name i) = Some (resolve imps i)"
| "get_name imps (Attribute v a) = Some (join_dots (rev (attr_parts imps (Attribute v a))))"
| "get_name imps e = None"

definition calls_edge :: "Builder \<Rightarrow> string \<Rightarrow> int \<Rightarrow> GraphEdge" where
  "calls_edge b callee lineno = \<lparr>ge_source = get_current_scope b, ge_target = callee,
     edge_type = ''calls'', ge_file = file_path b, ge_line = lineno\<rparr>"

text \<open>\<^verbatim>\<open>visit_Call\<close> before its \<^verbatim>\<open>generic_visit\<close>.\<close>

definition enter_call :: "int \<Rightarrow> expr \<Rightarrow> Builder \<Rightarrow> Builder" where
  "enter_call lineno func b =
     (if truthy (current_function b) then
        (case get_name (import_aliases b) func of
           None \<Rightarrow> b
         | Some callee \<Rightarrow>
             if callee \<noteq> [] then b\<lparr>graph := cg_add_edge (graph b) (calls_edge b callee lineno)\<rparr>
             else b)
      else b)"

fun visit_expr :: "expr \<Rightarrow> Builder \<Rightarrow> Builder"
  and visit_exprs :: "expr list \<Rightarrow> Builder \<Rightarrow> Builder" where
  "visit_expr (Name i) b = b"
| "visit_expr (Attribute v a) b = visit_expr v b"
| "visit_expr (Call lineno func args) b = visit_exprs args (visit_expr func (enter_call lineno func b))"
| "visit_expr (OtherExpr es) b = visit_exprs es b"
| "visit_exprs [] b = b"
| "visit_exprs (e # es) b = visit_exprs es (visit_expr e b)"

text \<open>\<^verbatim>\<open>alias.asname or alias.name\<close>.\<close>

definition alias_key :: "string \<times> string option \<Rightarrow> string" where
  "alias_key alias = (if truthy (snd alias) then the (snd alias) else fst alias)"

definition imports_edge :: "Builder \<Rightarrow> string \<Rightarrow> int \<Rightarrow> GraphEdge" where
  "imports_edge b tgt lineno = \<lparr>ge_source = module_nm b, ge_target = tgt,
     edge_type = ''imports'', ge_file = file_path b, ge_line = lineno\<rparr>"

text \<open>The loops of \<^verbatim>\<open>visit_Import\<close> and \<^verbatim>\<open>visit_ImportFrom\<close>.\<close>

definition import_alias :: "int \<Rightarrow> Builder \<Rightarrow> string \<times> string option \<Rightarrow> Builder" where
  "import_alias lineno b alias =
     b\<lparr>import_aliases := AList.update (alias_key alias) (fst alias) (import_aliases b),
       graph := cg_add_edge (graph b) (imports_edge b (fst alias) lineno)\<rparr>"

definition import_from_alias :: "int \<Rightarrow> string \<Rightarrow> Builder \<Rightarrow> string \<times> string option \<Rightarrow> Builder" where
  "import_from_alias lineno modl b alias =
     b\<lparr>import_aliases := AList.update (alias_key alias) (modl @ ''.'' @ fst alias) (import_aliases b),
       graph := cg_add_edge (graph b) (imports_edge b modl lineno)\<rparr>"

text \<open>The head of \<^verbatim>\<open>visit_ClassDef\<close>: the node of the class and an edge for every base
  that has a name.\<close>

definition inherits_edge :: "Builder \<Rightarrow> string \<Rightarrow> string \<Rightarrow> int \<Rightarrow> GraphEdge" where
  "inherits_edge b qualified base_name lineno = \<lparr>ge_source = qualified, ge_target = base_name,
     edge_type = ''inherits'', ge_file = file_path b, ge_line = lineno\<rparr>"

definition add_base :: "int \<Rightarrow> string \<Rightarrow> Builder \<Rightarrow> expr \<Rightarrow> Builder" where
  "add_base lineno qualified b base =
     (case get_name (import_aliases b) base of
        None \<Rightarrow> b
      | Some base_name \<Rightarrow>
          if base_name \<noteq> []
          then b\<lparr>graph := cg_add_edge (graph b) (inherits_edge b qualified base_name lineno)\<rparr>
          else b)"

definition enter_class :: "int \<Rightarrow> string \<Rightarrow> expr list \<Rightarrow> Builder \<Rightarrow> Builder" where
  "enter_class lineno nm bases b =
     (let qualified = module_nm b @ ''.'' @ nm;
          b = b\<lparr>graph := cg_add_node (graph b)
                 \<lparr>gn_name = nm, gn_node_type = ''class'', gn_file = file_path b,
                  gn_line = lineno, qualified_name = qualified\<rparr>\<rparr>
      in foldl (add_base lineno qualified) b bases)"

text \<open>The head of \<^verbatim>\<open>_visit_function\<close>: the node of the function or method.\<close>

definition enter_function :: "int \<Rightarrow> string \<Rightarrow> Builder \<Rightarrow> Builder" where
  "enter_function lineno nm b =
     (let qualified = (if truthy (current_class b)
                       then module_nm b @ ''.'' @ the (current_class b) @ ''.'' @ nm
                       else module_nm b @ ''.'' @ nm);
          kind = (if truthy (current_class b) then ''method'' else ''function'')
      in b\<lparr>graph := cg_add_node (graph b)
             \<lparr>gn_name = nm, gn_node_type = kind, gn_file = file_path b,
              gn_line = lineno, qualified_name = qualified\<rparr>\<rparr>)"

fun visit_stmt :: "stmt \<Rightarrow> Builder \<Rightarrow> Builder"
  and visit_stmts :: "stmt list \<Rightarrow> Builder \<Rightarrow> Builder" where
  "visit_stmt (FunctionDef lineno nm args body decorator_list returns) b =
     (let old_function = current_function b;
          b = (enter_function lineno nm b)\<lparr>current_function := Some nm\<rparr>;
          b = visit_exprs returns (visit_exprs decorator_list (visit_stmts body (visit_exprs args b)))
      in b\<lparr>current_function := old_function\<rparr>)"
| "visit_stmt (ClassDef lineno nm bases keyword_values body decorator_list) b =
     (let old_class = current_class b;
          b = (enter_class lineno nm bases b)\<lparr>current_class := Some nm\<rparr>;
          b = visit_exprs decorator_list (visit_stmts body (visit_exprs keyword_values (visit_exprs bases b)))
      in b\<lparr>current_class := old_class\<rparr>)"
| "visit_stmt (Import lineno names) b = foldl (import_alias lineno) b names"
| "visit_stmt (ImportFrom lineno modl names) b =
     (if truthy modl then foldl (import_from_alias lineno (the modl)) b names else b)"
| "visit_stmt (OtherStmt es ss) b = visit_stmts ss (visit_exprs es b)"
| "visit_stmts [] b = b"
| "visit_stmts (s # ss) b = visit_stmts ss (visit_stmt s b)"

text \<open>The body of the loop of \<^verbatim>\<open>build_call_graph\<close> for a file that parses: the node of
  the module, then the visit of the tree by a new builder. \<open>file_name\<close> is
  \<^verbatim>\<open>path.name\<close>.\<close>

definition visit_module :: "CallGraph \<Rightarrow> string \<Rightarrow> string \<Rightarrow> string \<Rightarrow> stmt list \<Rightarrow> CallGraph" where
  "visit_module g path_str file_name modl tree =
     (let g = cg_add_node g \<lparr>gn_name = file_name, gn_node_type = ''module'', gn_file = path_str,
                             gn_line = 1, qualified_name = modl\<rparr>
      in graph (visit_stmts tree (new_builder g path_str modl)))"

text \<open>A source file of \<^verbatim>\<open>build_call_graph\<close>: \<^verbatim>\<open>str(path)\<close>, \<^verbatim>\<open>path.name\<close>, the module
  name derived from the path, and the tree, \<open>None\<close> when reading or parsing the file
  raises.\<close>

definition build_call_graph ::
  "string \<Rightarrow> (string \<times> string \<times> string \<times> stmt list option) list \<Rightarrow> CallGraph" where
  "build_call_graph r files =
     fold (\<lambda>file g. case snd (snd (snd file)) of
                       None \<Rightarrow> g
                     | Some tree \<Rightarrow> visit_module g (fst file) (fst (snd file)) (fst (snd (snd file))) tree)
          files (empty_call_graph r)"

text \<open>The edges of kind \<^verbatim>\<open>calls\<close> of a call graph.\<close>

definition calls_edges :: "CallGraph \<Rightarrow> GraphEdge list" where
  "calls_edges g = filter (\<lambda>e. edge_type e = ''calls'') (cg_edges g)"

text \<open>A function definition occurs in a statement, at any depth.\<close>

fun has_function :: "stmt \<Rightarrow> bool"
  and have_function :: "stmt list \<Rightarrow> bool" where
  "has_function (FunctionDef lineno nm args body decorator_list returns) = True"
| "has_function (ClassDef lineno nm bases keyword_values body decorator_list) = have_function body"
| "has_function (Import lineno names) = False"
| "has_function (ImportFrom lineno modl names) = False"
| "has_function (OtherStmt es ss) = have_function ss"
| "have_function [] = False"
| "have_function (s # ss) = (has_function s \<or> have_function ss)"

text \<open>
  The tree without the expressions that lie in no function definition: such expressions
  are removed from the statements and from the class definitions. A base of a class keeps
  its attribute chain and a root that is a name, which is all that \<^verbatim>\<open>_get_name\<close> reads.
  A function definition is kept as it is.
\<close>

fun strip_base :: "expr \<Rightarrow> expr" where
  "strip_base (Name i) = Name i"
| "strip_base (Attribute v a) = Attribute (strip_base v) a"
| "strip_base e = OtherExpr []"

fun strip_stmt :: "stmt \<Rightarrow> stmt"
  and strip_stmts :: "stmt list \<Rightarrow> stmt list" where
  "strip_stmt (FunctionDef lineno nm args body decorator_list returns) =
     FunctionDef lineno nm args body decorator_list returns"
| "strip_stmt (ClassDef lineno nm bases keyword_values body decorator_list) =
     ClassDef lineno nm (map strip_base bases) [] (strip_stmts body) []"
| "strip_stmt (Import lineno names) = Import lineno names"
| "strip_stmt (ImportFrom lineno modl names) = ImportFrom lineno modl names"
| "strip_stmt (OtherStmt es ss) = OtherStmt [] (strip_stmts ss)"
| "strip_stmts [] = []"
| "strip_stmts (s # ss) = strip_stmt s # strip_stmts ss"

text \<open>The call nodes of an expression, each as its line and its callee expression.\<close>

fun calls_of_expr :: "expr \<Rightarrow> (int \<times> expr) list"
  and calls_of_exprs :: "expr list \<Rightarrow> (int \<times> expr) list" where
  "calls_of_expr (Name i) = []"
| "calls_of_expr (Attribute v a) = calls_of_expr v"
| "calls_of_expr (Call lineno func args) = (lineno, func) # calls_of_expr func @ calls_of_exprs args"
| "calls_of_expr (OtherExpr es) = calls_of_exprs es"
| "calls_of_exprs [] = []"
| "calls_of_exprs (e # es) = calls_of_expr e @ calls_of_exprs es"

text \<open>The call nodes of a statement that lie in no definition nested in it: a nested
  function or class opens a scope of its own.\<close>

fun direct_calls :: "stmt \<Rightarrow> (int \<times> expr) list"
  and direct_calls_list :: "stmt list \<Rightarrow> (int \<times> expr) list" where
  "direct_calls (FunctionDef lineno nm args body decorator_list returns) = []"
| "direct_calls (ClassDef lineno nm bases keyword_values body decorator_list) = []"
| "direct_calls (Import lineno names) = []"
| "direct_calls (ImportFrom lineno modl names) = []"
| "direct_calls (OtherStmt es ss) = calls_of_exprs es @ direct_calls_list ss"
| "direct_calls_list [] = []"
| "direct_calls_list (s # ss) = direct_calls s @ direct_calls_list ss"

text \<open>The names that the import statements of a statement bind, at any depth.\<close>

fun bound_names :: "stmt \<Rightarrow> string list"
  and bound_names_list :: "stmt list \<Rightarrow> string list" where
  "bound_names (FunctionDef lineno nm args body decorator_list returns) = bound_names_list body"
| "bound_names (ClassDef lineno nm bases keyword_values body decorator_list) = bound_names_list body"
| "bound_names (Import lineno names) = map alias_key names"
| "bound_names (ImportFrom lineno modl names) = map alias_key names"
| "bound_names (OtherStmt es ss) = bound_names_list ss"
| "bound_names_list [] = []"
| "bound_names_list (s # ss) = bound_names s @ bound_names_list ss"

text \<open>The identifier at the root of a name or of an attribute chain.\<close>

fun root_name :: "expr \<Rightarrow> string option" where
  "root_name (Name i) = Some i"
| "root_name (Attribute v a) = root_name v"
| "root_name e = None"

text \<open>
  A module \<^verbatim>\<open>m\<close> for the examples: it imports \<^verbatim>\<open>numpy\<close> as \<^verbatim>\<open>np\<close> and
  \<^verbatim>\<open>os.path\<close> as \<^verbatim>\<open>p\<close>, calls \<^verbatim>\<open>setup()\<close> at the top level, and defines a function
  \<^verbatim>\<open>g\<close> whose body calls \<^verbatim>\<open>f(np.linalg.norm())\<close> and \<^verbatim>\<open>p.join()\<close>.
\<close>

definition example_imports :: "stmt list" where
  "example_imports =
     [Import 1 [(''numpy'', Some ''np'')], ImportFrom 2 (Some ''os'') [(''path'', Some ''p'')]]"

definition example_body :: "stmt list" where
  "example_body =
     [OtherStmt [Call 5 (Name ''f'')
                   [Call 5 (Attribute (Attribute (Name ''np'') ''linalg'') ''norm'') []]] [],
      OtherStmt [Call 6 (Attribute (Name ''p'') ''join'') []] []]"

definition example_module :: "stmt list" where
  "example_module =
     example_imports
     @ [OtherStmt [Call 3 (Name ''setup'') []] [],
        FunctionDef 4 ''g'' [] example_body [] []]"

text \<open>The builder after the import statements of the module.\<close>

definition example_builder :: Builder where
  "example_builder =
     visit_stmts example_imports (new_builder (empty_call_graph ''/repo'') ''/repo/m.py'' ''m'')"

text \<open>A tree with no function definition: a call at the top level, and a class with a
  call in a base, in a decorator and in its body.\<close>

definition unscoped_example :: "stmt list" where
  "unscoped_example =
     [Import 1 [(''registry'', None)],
      OtherStmt [Call 2 (Name ''setup'') [Call 2 (Name ''options'') []]] [],
      ClassDef 4 ''K'' [Call 4 (Name ''make_base'') []] []
        [OtherStmt [Call 5 (Attribute (Name ''registry'') ''register'') []] []]
        [Call 3 (Name ''dataclass'') []]]"

text \<open>A function with an empty body and the decorator \<^verbatim>\<open>@deco()\<close>; a function that calls
  \<^verbatim>\<open>f()\<close>, followed by the import that binds \<^verbatim>\<open>f\<close>; and a function whose body holds
  a nested function that calls \<^verbatim>\<open>f()\<close>.\<close>

definition decorated_example :: "stmt list" where
  "decorated_example = [FunctionDef 2 ''g'' [] [] [Call 1 (Name ''deco'') []] []]"

definition late_import_example :: "stmt list" where
  "late_import_example =
     [FunctionDef 1 ''g'' [] [OtherStmt [Call 2 (Name ''f'') []] []] [] [],
      ImportFrom 4 (Some ''x'') [(''f'', None)]]"

definition nested_example :: "stmt list" where
  "nested_example =
     [FunctionDef 1 ''g'' []
        [FunctionDef 2 ''h'' [] [OtherStmt [Call 3 (Name ''f'') []] []] [] []] [] []]"

section \<open>Properties of add\_edge\<close>

lemma edge_of_add_edge:
  "edge_of (add_edge g x y kind w now) x y =
     update_weight kind w
       (let e1 = (edge_of g x y)\<lparr>last_updated := now\<rparr>
        in if kind \<notin> set (relationship_types e1)
           then e1\<lparr>relationship_types := relationship_types e1 @ [kind]\<rparr> else e1)"
  by (simp add: edge_of_def add_edge_def Let_def update_conv)

lemma structural_update_weight:
  "kind \<in> {''calls'', ''imports'', ''inherits''} \<Longrightarrow>
     structural_weight (update_weight kind w e) = max (structural_weight e) w"
  by (simp add: update_weight_def)

lemma structural_add_edge:
  "kind \<in> {''calls'', ''imports'', ''inherits''} \<Longrightarrow>
     structural_weight (edge_of (add_edge g x y kind w now) x y) =
       max (structural_weight (edge_of g x y)) w"
  by (simp add: edge_of_add_edge structural_update_weight Let_def)

lemma structural_add_edge_calls:
  "structural_weight (edge_of (add_edge g x y ''calls'' w now) x y) =
     max (structural_weight (edge_of g x y)) w"
  by (rule structural_add_edge) simp

lemma semantic_add_edge_similar:
  "semantic_weight (edge_of (add_edge g x y ''similar'' w now) x y) =
     max (semantic_weight (edge_of g x y)) w"
  by (simp add: edge_of_add_edge update_weight_def Let_def)

lemma structural_add_edge_repeat:
  "structural_weight (edge_of (add_edge_repeat g x y ''calls'' w nows) x y) =
     (if nows = [] then structural_weight (edge_of g x y)
      else max (structural_weight (edge_of g x y)) w)"
  unfolding add_edge_repeat_def
proof (induction nows arbitrary: g)
  case Nil
  show ?case by simp
next
  case (Cons n ns)
  show ?case
    by (simp add: Cons.IH structural_add_edge_calls)
qed

text \<open>
  C3. \<^verbatim>\<open>add_edge\<close> is idempotent on the structural slot. One call with a structural
  kind (\<^verbatim>\<open>calls\<close>, \<^verbatim>\<open>imports\<close>, \<^verbatim>\<open>inherits\<close>) sets the slot to the maximum of the old weight and the observation (and a
  \<^verbatim>\<open>similar\<close> call does so for the semantic slot); a second call of
  \<^verbatim>\<open>add_edge(x, y, 'calls', 1.0)\<close> changes nothing of the slot; and on an edge whose
  structural weight is at most 1 (a new edge has 0) any positive number of such calls
  leaves the weight 1, never 2.
\<close>

theorem add_edge_structural_idempotent:
  "(kind \<in> {''calls'', ''imports'', ''inherits''} \<longrightarrow>
      structural_weight (edge_of (add_edge g x y kind w now) x y)
        = max (structural_weight (edge_of g x y)) w)
   \<and> semantic_weight (edge_of (add_edge g x y ''similar'' w now) x y)
     = max (semantic_weight (edge_of g x y)) w
   \<and> structural_weight
       (edge_of (add_edge (add_edge g x y ''calls'' 1 now) x y ''calls'' 1 now') x y)
     = structural_weight (edge_of (add_edge g x y ''calls'' 1 now) x y)
   \<and> (structural_weight (edge_of g x y) \<le> 1 \<longrightarrow> nows \<noteq> [] \<longrightarrow>
        structural_weight (edge_of (add_edge_repeat g x y ''calls'' 1 nows) x y) = 1)"
  using structural_add_edge [of kind g x y w now]
  by (simp add: structural_add_edge_calls semantic_add_edge_similar
      structural_add_edge_repeat)

theorem add_edge_structural_idempotent_witness:
  "''imports'' \<in> {''calls'', ''imports'', ''inherits''}
   \<and> structural_weight (edge_of (empty_graph ''/repo'') ''a.py'' ''b.py'') \<le> 1
   \<and> [''2024-01-01T00:00:00Z'', ''2024-01-01T00:00:01Z''] \<noteq> []
   \<and> structural_weight
       (edge_of (add_edge (empty_graph ''/repo'') ''a.py'' ''b.py'' ''imports'' 1
          ''2024-01-01T00:00:00Z'') ''a.py'' ''b.py'') = 1
   \<and> structural_weight
       (edge_of (add_edge_repeat (empty_graph ''/repo'') ''a.py'' ''b.py'' ''calls'' 1
          [''2024-01-01T00:00:00Z'', ''2024-01-01T00:00:01Z'']) ''a.py'' ''b.py'') = 1"
proof -
  have k: "''imports'' \<in> {''calls'', ''imports'', ''inherits''}"
    by simp
  have h: "structural_weight (edge_of (empty_graph ''/repo'') ''a.py'' ''b.py'') \<le> 1"
    and z: "structural_weight (edge_of (empty_graph ''/repo'') ''a.py'' ''b.py'') = 0"
    by (simp_all add: edge_of_def empty_graph_def new_edge_def)
  note t = add_edge_structural_idempotent
    [of "''imports''" "empty_graph ''/repo''" "''a.py''" "''b.py''" 1 "''2024-01-01T00:00:00Z''"
      "''2024-01-01T00:00:01Z''" "[''2024-01-01T00:00:00Z'', ''2024-01-01T00:00:01Z'']"]
  from t k have a: "structural_weight
       (edge_of (add_edge (empty_graph ''/repo'') ''a.py'' ''b.py'' ''imports'' 1
          ''2024-01-01T00:00:00Z'') ''a.py'' ''b.py'')
       = max (structural_weight (edge_of (empty_graph ''/repo'') ''a.py'' ''b.py'')) 1"
    by blast
  from t h have b: "structural_weight
       (edge_of (add_edge_repeat (empty_graph ''/repo'') ''a.py'' ''b.py'' ''calls'' 1
          [''2024-01-01T00:00:00Z'', ''2024-01-01T00:00:01Z'']) ''a.py'' ''b.py'') = 1"
    by blast
  from a z have a': "structural_weight
       (edge_of (add_edge (empty_graph ''/repo'') ''a.py'' ''b.py'' ''imports'' 1
          ''2024-01-01T00:00:00Z'') ''a.py'' ''b.py'') = 1"
    by simp
  from k h a' b show ?thesis by simp
qed

section \<open>Properties of the temporal tracker\<close>

lemma edge_key_same_source: "edge_key a x = edge_key a y \<longleftrightarrow> x = y"
  by (simp add: edge_key_def)

lemma edge_of_add_edge_other:
  "c \<noteq> b \<Longrightarrow> edge_of (add_edge g a c kind w now) a b = edge_of g a b"
  by (simp add: edge_of_def add_edge_def Let_def update_conv edge_key_same_source)

lemma temporal_add_edge:
  "temporal_weight (edge_of (add_edge g a b ''accessed_together'' w now) a b) =
     min 1 (temporal_weight (edge_of g a b) + w * 0.1)"
  by (simp add: edge_of_add_edge update_weight_def Let_def)

lemma min_cap_step:
  fixes t :: real
  assumes "0 \<le> d" "0 \<le> c"
  shows "min 1 (min 1 (t + d) + c) = min 1 (t + (d + c))"
  using assms by (auto simp: min_def)

lemma temporal_add_edges:
  assumes "0 \<le> w"
  shows "temporal_weight (edge_of (add_edges g a os ''accessed_together'' w clock) a b) =
     (if b \<in> set os
      then min 1 (temporal_weight (edge_of g a b) + real (count_list os b) * (w * 0.1))
      else temporal_weight (edge_of g a b))"
proof -
  define d where "d = w * 0.1"
  have d0: "0 \<le> d" using assms by (simp add: d_def)
  have "temporal_weight (edge_of (add_edges g a os ''accessed_together'' w clock) a b) =
     (if b \<in> set os
      then min 1 (temporal_weight (edge_of g a b) + real (count_list os b) * d)
      else temporal_weight (edge_of g a b))"
  proof (induction os arbitrary: g clock)
    case Nil
    show ?case by simp
  next
    case (Cons c cs)
    show ?case
    proof (cases "c = b")
      case True
      let ?t = "temporal_weight (edge_of g a b)"
      let ?n = "real (count_list cs b)"
      have one: "temporal_weight (edge_of (add_edge g a b ''accessed_together'' w (clock 0)) a b)
          = min 1 (?t + d)"
        by (simp add: temporal_add_edge d_def)
      have cap: "min 1 (min 1 (?t + d) + ?n * d) = min 1 (?t + (d + ?n * d))"
        using d0 by (intro min_cap_step) simp_all
      have zero: "b \<notin> set cs \<Longrightarrow> ?n = 0"
        by simp
      have "temporal_weight (edge_of (add_edges g a (c # cs) ''accessed_together'' w clock) a b)
          = min 1 (min 1 (?t + d) + ?n * d)"
        using True zero by (auto simp: Cons.IH one)
      also have "\<dots> = min 1 (?t + (1 + ?n) * d)"
        by (simp only: cap distrib_right mult_1)
      finally show ?thesis using True by simp
    next
      case False
      then show ?thesis
        by (simp add: Cons.IH edge_of_add_edge_other)
    qed
  qed
  then show ?thesis by (simp only: d_def)
qed

lemma temporal_add_edge_repeat:
  assumes "0 \<le> w"
  shows "temporal_weight (edge_of (add_edge_repeat g a b ''accessed_together'' w nows) a b) =
     (if nows = [] then temporal_weight (edge_of g a b)
      else min 1 (temporal_weight (edge_of g a b) + real (length nows) * (w * 0.1)))"
proof -
  define d where "d = w * 0.1"
  have d0: "0 \<le> d" using assms by (simp add: d_def)
  have "temporal_weight (edge_of (fold (\<lambda>now h. add_edge h a b ''accessed_together'' w now) nows g) a b) =
     (if nows = [] then temporal_weight (edge_of g a b)
      else min 1 (temporal_weight (edge_of g a b) + real (length nows) * d))"
  proof (induction nows arbitrary: g)
    case Nil
    show ?case by simp
  next
    case (Cons n ns)
    let ?t = "temporal_weight (edge_of g a b)"
    have one: "temporal_weight (edge_of (add_edge g a b ''accessed_together'' w n) a b)
        = min 1 (?t + d)"
      by (simp add: temporal_add_edge d_def)
    have cap: "min 1 (min 1 (?t + d) + real (length ns) * d) = min 1 (?t + (d + real (length ns) * d))"
      using d0 by (intro min_cap_step) simp_all
    have "temporal_weight (edge_of (fold (\<lambda>now h. add_edge h a b ''accessed_together'' w now) (n # ns) g) a b)
        = min 1 (min 1 (?t + d) + real (length ns) * d)"
    proof -
      have "temporal_weight (edge_of (fold (\<lambda>now h. add_edge h a b ''accessed_together'' w now) (n # ns) g) a b)
          = (if ns = [] then min 1 (?t + d) else min 1 (min 1 (?t + d) + real (length ns) * d))"
        using Cons.IH [of "add_edge g a b ''accessed_together'' w n"] one by simp
      then show ?thesis by (cases "ns = []") simp_all
    qed
    also have "\<dots> = min 1 (?t + (1 + real (length ns)) * d)"
      by (simp only: cap distrib_right mult_1)
    finally show ?case by simp
  qed
  then show ?thesis by (simp only: d_def add_edge_repeat_def)
qed


lemma edge_of_record_access_pre:
  "edges g' = edges g \<Longrightarrow> edge_of g' x y = edge_of g x y"
  by (simp add: edge_of_def)

lemma temporal_record_access:
  "temporal_weight (edge_of (record_access g a ts cu clock) a b) =
     (if b \<in> set (paired_ids g a ts cu)
      then min 1 (temporal_weight (edge_of g a b)
                    + real (count_list (paired_ids g a ts cu) b) * 0.05)
      else temporal_weight (edge_of g a b))"
proof -
  define g2 where "g2 = (let g1 = g\<lparr>access_history := history_after g a ts\<rparr>
      in case map_of (nodes g1) a of
                  None \<Rightarrow> g1
                | Some n \<Rightarrow> g1\<lparr>nodes := AList.update a
                    (n\<lparr>last_accessed := ts, access_count := access_count n + 1\<rparr>)
                    (nodes g1)\<rparr>)"
  have "edges g2 = edges g"
    by (simp add: g2_def Let_def split: option.splits)
  then have e: "edge_of g2 a b = edge_of g a b"
    by (rule edge_of_record_access_pre)
  have r: "record_access g a ts cu clock =
      add_edges g2 a (paired_ids g a ts cu) ''accessed_together'' 0.5 clock"
    by (simp add: record_access_def g2_def Let_def)
  have "(0::real) \<le> 0.5" by simp
  from temporal_add_edges [OF this, of g2 a "paired_ids g a ts cu" clock b]
  show ?thesis unfolding r e by simp
qed

lemma temporal_record_access_bounds:
  assumes "b \<in> set (paired_ids g a ts cu)"
  shows "min 1 (temporal_weight (edge_of g a b) + 0.05)
           \<le> temporal_weight (edge_of (record_access g a ts cu clock) a b)"
    and "temporal_weight (edge_of (record_access g a ts cu clock) a b) \<le> 1"
proof -
  have "1 \<le> count_list (paired_ids g a ts cu) b"
    using assms count_list_0_iff [of "paired_ids g a ts cu" b] by simp
  then have "(1::real) \<le> real (count_list (paired_ids g a ts cu) b)"
    by simp
  then show "min 1 (temporal_weight (edge_of g a b) + 0.05)
           \<le> temporal_weight (edge_of (record_access g a ts cu clock) a b)"
    using assms by (simp add: temporal_record_access min_def)
  show "temporal_weight (edge_of (record_access g a ts cu clock) a b) \<le> 1"
    using assms by (simp add: temporal_record_access)
qed

lemma min_mono_step:
  fixes t :: real
  assumes "min 1 (t + d) \<le> t'" "0 \<le> m"
  shows "min 1 (t + (d + m)) \<le> min 1 (t' + m)"
  using assms unfolding min_def by (auto split: if_splits)

lemma temporal_record_accesses_lower:
  "cooccurrences g a b rs \<Longrightarrow>
     min 1 (temporal_weight (edge_of g a b) + real (length rs) * 0.05)
       \<le> temporal_weight (edge_of (record_accesses g a rs) a b)
     \<and> (rs \<noteq> [] \<longrightarrow> temporal_weight (edge_of (record_accesses g a rs) a b) \<le> 1)"
proof (induction g a rs rule: record_accesses.induct)
  case (1 g nid)
  show ?case by simp
next
  case (2 g nid ts cu clock rs)
  let ?g' = "record_access g nid ts cu clock"
  from "2.prems" have p: "b \<in> set (paired_ids g nid ts cu)"
    and c: "cooccurrences ?g' nid b rs" by simp_all
  note ih = "2.IH" [OF c]
  have lo: "min 1 (temporal_weight (edge_of g nid b) + 0.05) \<le> temporal_weight (edge_of ?g' nid b)"
    and hi: "temporal_weight (edge_of ?g' nid b) \<le> 1"
    using temporal_record_access_bounds [OF p] by simp_all
  have "min 1 (temporal_weight (edge_of g nid b) + (0.05 + real (length rs) * 0.05))
      \<le> min 1 (temporal_weight (edge_of ?g' nid b) + real (length rs) * 0.05)"
    using lo by (intro min_mono_step) simp_all
  then have "min 1 (temporal_weight (edge_of g nid b) + real (length ((ts, cu, clock) # rs)) * 0.05)
      \<le> min 1 (temporal_weight (edge_of ?g' nid b) + real (length rs) * 0.05)"
    by (simp add: distrib_right add_divide_distrib)
  also have "\<dots> \<le> temporal_weight (edge_of (record_accesses ?g' nid rs) nid b)"
    using ih by simp
  finally have A: "min 1 (temporal_weight (edge_of g nid b) + real (length ((ts, cu, clock) # rs)) * 0.05)
      \<le> temporal_weight (edge_of (record_accesses g nid ((ts, cu, clock) # rs)) nid b)"
    by simp
  have B: "temporal_weight (edge_of (record_accesses g nid ((ts, cu, clock) # rs)) nid b) \<le> 1"
    using ih hi by (cases "rs = []") simp_all
  from A B show ?case by simp
qed

lemma set_update_subset: "set (AList.update k v al) \<subseteq> insert (k, v) (set al)"
  by (induction al) auto

lemma temporal_capped_add_edge:
  "temporal_capped g \<Longrightarrow> temporal_capped (add_edge g x y ''accessed_together'' w now)"
proof -
  assume c: "temporal_capped g"
  let ?e = "update_weight ''accessed_together'' w
       (let e1 = (edge_of g x y)\<lparr>last_updated := now\<rparr>
        in if ''accessed_together'' \<notin> set (relationship_types e1)
           then e1\<lparr>relationship_types := relationship_types e1 @ [''accessed_together'']\<rparr> else e1)"
  have e: "edges (add_edge g x y ''accessed_together'' w now) = AList.update (edge_key x y) ?e (edges g)"
    by (simp add: add_edge_def Let_def edge_of_def)
  have t: "temporal_weight ?e \<le> 1"
    by (simp add: update_weight_def Let_def)
  show ?thesis
    unfolding temporal_capped_def e list_all_iff
    using c t set_update_subset [of "edge_key x y" ?e "edges g"]
    by (auto simp: temporal_capped_def list_all_iff)
qed

lemma temporal_capped_add_edges:
  "temporal_capped g \<Longrightarrow> temporal_capped (add_edges g a os ''accessed_together'' w clock)"
  by (induction os arbitrary: g clock) (simp_all add: temporal_capped_add_edge)

lemma temporal_capped_record_access:
  "temporal_capped g \<Longrightarrow> temporal_capped (record_access g a ts cu clock)"
proof -
  assume c: "temporal_capped g"
  have "temporal_capped g2" if "edges g2 = edges g" for g2
    using c that by (simp add: temporal_capped_def)
  then show ?thesis
    unfolding record_access_def Let_def
    by (intro temporal_capped_add_edges) (simp split: option.splits)
qed

lemma temporal_capped_record_accesses:
  "temporal_capped g \<Longrightarrow> temporal_capped (record_accesses g a rs)"
  by (induction g a rs rule: record_accesses.induct) (simp_all add: temporal_capped_record_access)

text \<open>
  C4. Temporal saturation. An observation is one call
  \<^verbatim>\<open>add_edge(a, b, 'accessed_together', weight=0.5)\<close>, which adds \<open>0.5 \<times> 0.1\<close> to the
  temporal weight and caps the sum at 1. From weight 0, \<open>n\<close> observations give
  \<open>min 1 (n \<times> 0.05)\<close>: exactly 1 after 20 observations and after any larger number, less
  than 1 before. Through \<^verbatim>\<open>record_access\<close>: when each of at least 20 successive accesses
  of \<open>a\<close> is paired with \<open>b\<close> (an access of \<open>b\<close> lies in the window), the weight of the
  edge from \<open>a\<close> to \<open>b\<close> is exactly 1; and no run of accesses takes the temporal weight of
  any stored edge beyond 1.
\<close>

theorem temporal_saturation:
  "(temporal_weight (edge_of g a b) = 0 \<longrightarrow>
      temporal_weight (edge_of (add_edge_repeat g a b ''accessed_together'' 0.5 nows) a b)
        = min 1 (real (length nows) * 0.05))
   \<and> (0 \<le> temporal_weight (edge_of g a b) \<longrightarrow> cooccurrences g a b rs \<longrightarrow> 20 \<le> length rs \<longrightarrow>
        temporal_weight (edge_of (record_accesses g a rs) a b) = 1)
   \<and> (temporal_capped g \<longrightarrow> temporal_capped (record_accesses g a rs))"
proof (intro conjI impI)
  assume z: "temporal_weight (edge_of g a b) = 0"
  have "(0::real) \<le> 0.5" by simp
  from temporal_add_edge_repeat [OF this, of g a b nows] z
  show "temporal_weight (edge_of (add_edge_repeat g a b ''accessed_together'' 0.5 nows) a b)
        = min 1 (real (length nows) * 0.05)"
    by simp
next
  assume z: "0 \<le> temporal_weight (edge_of g a b)" and c: "cooccurrences g a b rs"
    and n: "20 \<le> length rs"
  from n have ne: "rs \<noteq> []" by auto
  from n have "(20::real) \<le> real (length rs)" by simp
  then have "1 \<le> temporal_weight (edge_of g a b) + real (length rs) * 0.05"
    using z by simp
  then have "min 1 (temporal_weight (edge_of g a b) + real (length rs) * 0.05) = 1"
    by simp
  with temporal_record_accesses_lower [OF c] ne
  show "temporal_weight (edge_of (record_accesses g a rs) a b) = 1"
    by simp
next
  assume "temporal_capped g"
  then show "temporal_capped (record_accesses g a rs)"
    by (rule temporal_capped_record_accesses)
qed

theorem temporal_saturation_witness:
  "temporal_weight (edge_of saturation_graph ''a.py'' ''b.py'') = 0
   \<and> cooccurrences saturation_graph ''a.py'' ''b.py'' (saturation_reads 20)
   \<and> 20 \<le> length (saturation_reads 20)
   \<and> temporal_capped saturation_graph
   \<and> temporal_weight (edge_of (add_edge_repeat saturation_graph ''a.py'' ''b.py''
         ''accessed_together'' 0.5 (replicate 20 ''2024-01-01T00:06:00Z'')) ''a.py'' ''b.py'') = 1
   \<and> temporal_weight
         (edge_of (record_accesses saturation_graph ''a.py'' (saturation_reads 20)) ''a.py'' ''b.py'') = 1
   \<and> temporal_capped (record_accesses saturation_graph ''a.py'' (saturation_reads 20))"
proof -
  have h1: "temporal_weight (edge_of saturation_graph ''a.py'' ''b.py'') = 0"
    by (simp add: saturation_graph_def edge_of_def empty_graph_def new_edge_def)
  have h2: "cooccurrences saturation_graph ''a.py'' ''b.py'' (saturation_reads 20)"
    by code_simp
  have h3: "20 \<le> length (saturation_reads 20)"
    by (simp add: saturation_reads_def)
  have h4: "temporal_capped saturation_graph"
    by (simp add: saturation_graph_def temporal_capped_def empty_graph_def)
  from temporal_saturation [of saturation_graph "''a.py''" "''b.py''"
      "replicate 20 ''2024-01-01T00:06:00Z''" "saturation_reads 20"] h1 h2 h3 h4
  show ?thesis by simp
qed

section \<open>Properties of record\_comodification\<close>

lemma comod_get_incr:
  "comod_get (comod_incr f1 f2 m) x y =
     comod_get m x y + (if x = f1 \<and> y = f2 then 1 else 0)"
  by (simp add: comod_get_def comod_incr_def Let_def update_conv split: option.splits)

lemma comod_matrix_add_edge: "comod_matrix (add_edge g x y kind w now) = comod_matrix g"
  by (simp add: add_edge_def Let_def)

lemma comod_get_pair:
  "comod_get (comod_matrix (comod_pair g f1 f2 now)) x y =
     comod_get (comod_matrix g) x y
       + (if x = f1 \<and> y = f2 then 1 else 0) + (if x = f2 \<and> y = f1 then 1 else 0)"
proof -
  have "comod_matrix (comod_pair g f1 f2 now) = comod_incr f2 f1 (comod_incr f1 f2 (comod_matrix g))"
    unfolding comod_pair_def Let_def comod_matrix_add_edge by simp
  then show ?thesis
    by (simp add: comod_get_incr)
qed

lemma comod_get_inner:
  "f1 \<notin> set fs \<Longrightarrow> distinct fs \<Longrightarrow>
   comod_get (comod_matrix (comod_inner g f1 fs clock)) x y =
     comod_get (comod_matrix g) x y
       + (if (x = f1 \<and> y \<in> set fs) \<or> (y = f1 \<and> x \<in> set fs) then 1 else 0)"
proof (induction fs arbitrary: g clock)
  case Nil
  show ?case by simp
next
  case (Cons f2 fs)
  then show ?case
    by (auto simp: comod_get_pair)
qed

lemma comod_get_record_comodification:
  "distinct files \<Longrightarrow>
   comod_get (comod_matrix (record_comodification g files clock)) x y =
     comod_get (comod_matrix g) x y
       + (if x \<in> set files \<and> y \<in> set files \<and> x \<noteq> y then 1 else 0)"
proof (induction files arbitrary: g clock)
  case Nil
  show ?case by simp
next
  case (Cons f1 fs)
  then show ?case
    by (auto simp: comod_get_inner)
qed

text \<open>
  C6. For three distinct files \<open>a\<close>, \<open>b\<close>, \<open>c\<close>, \<^verbatim>\<open>record_comodification([a, b, c])\<close>
  raises each of the six entries \<open>[a][b]\<close>, \<open>[b][a]\<close>, \<open>[a][c]\<close>, \<open>[c][a]\<close>, \<open>[b][c]\<close>,
  \<open>[c][b]\<close> of the co-modification matrix by exactly 1, and every other entry (a pair
  with a member outside the list, and the diagonal) keeps its value.
\<close>

theorem record_comodification_three:
  assumes "a \<noteq> b" "a \<noteq> c" "b \<noteq> c"
  shows "comod_get (comod_matrix (record_comodification g [a, b, c] clock)) a b
           = comod_get (comod_matrix g) a b + 1
       \<and> comod_get (comod_matrix (record_comodification g [a, b, c] clock)) b a
           = comod_get (comod_matrix g) b a + 1
       \<and> comod_get (comod_matrix (record_comodification g [a, b, c] clock)) a c
           = comod_get (comod_matrix g) a c + 1
       \<and> comod_get (comod_matrix (record_comodification g [a, b, c] clock)) c a
           = comod_get (comod_matrix g) c a + 1
       \<and> comod_get (comod_matrix (record_comodification g [a, b, c] clock)) b c
           = comod_get (comod_matrix g) b c + 1
       \<and> comod_get (comod_matrix (record_comodification g [a, b, c] clock)) c b
           = comod_get (comod_matrix g) c b + 1
       \<and> (\<forall>x y. \<not> (x \<in> {a, b, c} \<and> y \<in> {a, b, c} \<and> x \<noteq> y) \<longrightarrow>
            comod_get (comod_matrix (record_comodification g [a, b, c] clock)) x y
              = comod_get (comod_matrix g) x y)"
proof -
  have d: "distinct [a, b, c]" using assms by simp
  show ?thesis
    unfolding comod_get_record_comodification [OF d]
    using assms by simp
qed

theorem record_comodification_three_witness:
  "''a.py'' \<noteq> ''b.py'' \<and> ''a.py'' \<noteq> ''c.py'' \<and> ''b.py'' \<noteq> ''c.py''
   \<and> comod_get (comod_matrix (record_comodification comod_example
          [''a.py'', ''b.py'', ''c.py''] (\<lambda>k. ''2024-01-01T00:00:00Z''))) ''a.py'' ''b.py'' = 5
   \<and> comod_get (comod_matrix (record_comodification comod_example
          [''a.py'', ''b.py'', ''c.py''] (\<lambda>k. ''2024-01-01T00:00:00Z''))) ''c.py'' ''b.py'' = 1
   \<and> comod_get (comod_matrix (record_comodification comod_example
          [''a.py'', ''b.py'', ''c.py''] (\<lambda>k. ''2024-01-01T00:00:00Z''))) ''a.py'' ''d.py'' = 2"
proof -
  have h: "''a.py'' \<noteq> ''b.py''" "''a.py'' \<noteq> ''c.py''" "''b.py'' \<noteq> ''c.py''"
    by simp_all
  have v: "comod_get (comod_matrix comod_example) ''a.py'' ''b.py'' = 4"
      "comod_get (comod_matrix comod_example) ''c.py'' ''b.py'' = 0"
      "comod_get (comod_matrix comod_example) ''a.py'' ''d.py'' = 2"
    by (simp_all add: comod_get_def comod_example_def)
  note t = record_comodification_three [OF h, of comod_example "\<lambda>k. ''2024-01-01T00:00:00Z''"]
  note c1 = t [THEN conjunct1]
  note c6 = t [THEN conjunct2, THEN conjunct2, THEN conjunct2, THEN conjunct2, THEN conjunct2,
      THEN conjunct1]
  note fr = t [THEN conjunct2, THEN conjunct2, THEN conjunct2, THEN conjunct2, THEN conjunct2,
      THEN conjunct2, rule_format, of "''a.py''" "''d.py''"]
  have f: "comod_get (comod_matrix (record_comodification comod_example
          [''a.py'', ''b.py'', ''c.py''] (\<lambda>k. ''2024-01-01T00:00:00Z''))) ''a.py'' ''d.py''
      = comod_get (comod_matrix comod_example) ''a.py'' ''d.py''"
    by (rule fr) simp
  show ?thesis
    unfolding c1 c6 f v by simp
qed

section \<open>Properties of the queries\<close>



















section \<open>Properties of persistence\<close>











section \<open>Properties of the build\<close>


















section \<open>Properties of the co-modification miner\<close>













section \<open>Properties of the structural extractor\<close>

lemma calls_edges_add_edge:
  "calls_edges (cg_add_edge g e) = calls_edges g @ (if edge_type e = ''calls'' then [e] else [])"
  by (simp add: calls_edges_def cg_add_edge_def)

lemma calls_edges_add_node: "calls_edges (cg_add_node g n) = calls_edges g"
  by (simp add: calls_edges_def cg_add_node_def)

lemma visit_expr_unscoped:
  "\<not> truthy (current_function b) \<Longrightarrow> visit_expr e b = b"
  "\<not> truthy (current_function b) \<Longrightarrow> visit_exprs es b = b"
  by (induction e b and es b rule: visit_expr_visit_exprs.induct)
    (simp_all add: enter_call_def)

lemma add_base_frame:
  "current_function (foldl (add_base l q) b bases) = current_function b"
  "current_class (foldl (add_base l q) b bases) = current_class b"
  "calls_edges (graph (foldl (add_base l q) b bases)) = calls_edges (graph b)"
  by (induction bases arbitrary: b)
    (simp_all add: add_base_def calls_edges_add_edge inherits_edge_def split: option.splits)

lemma enter_class_frame:
  "current_function (enter_class l n bases b) = current_function b"
  "current_class (enter_class l n bases b) = current_class b"
  "calls_edges (graph (enter_class l n bases b)) = calls_edges (graph b)"
  by (simp_all add: enter_class_def Let_def add_base_frame calls_edges_add_node)

lemma import_alias_frame:
  "current_function (foldl (import_alias l) b names) = current_function b"
  "current_class (foldl (import_alias l) b names) = current_class b"
  "calls_edges (graph (foldl (import_alias l) b names)) = calls_edges (graph b)"
  by (induction names arbitrary: b)
    (simp_all add: import_alias_def calls_edges_add_edge imports_edge_def)

lemma import_from_alias_frame:
  "current_function (foldl (import_from_alias l m) b names) = current_function b"
  "current_class (foldl (import_from_alias l m) b names) = current_class b"
  "calls_edges (graph (foldl (import_from_alias l m) b names)) = calls_edges (graph b)"
  by (induction names arbitrary: b)
    (simp_all add: import_from_alias_def calls_edges_add_edge imports_edge_def)

lemma visit_stmt_unscoped:
  "\<not> truthy (current_function b) \<Longrightarrow> \<not> has_function s \<Longrightarrow>
     current_function (visit_stmt s b) = current_function b
     \<and> calls_edges (graph (visit_stmt s b)) = calls_edges (graph b)"
  "\<not> truthy (current_function b) \<Longrightarrow> \<not> have_function ss \<Longrightarrow>
     current_function (visit_stmts ss b) = current_function b
     \<and> calls_edges (graph (visit_stmts ss b)) = calls_edges (graph b)"
proof (induction s b and ss b rule: visit_stmt_visit_stmts.induct)
  case (1 lineno nm args body decorator_list returns b)
  then show ?case by simp
next
  case (2 lineno nm bases kws body decorator_list b)
  let ?b1 = "(enter_class lineno nm bases b)\<lparr>current_class := Some nm\<rparr>"
  have f: "\<not> truthy (current_function ?b1)"
    using "2.prems" by (simp add: enter_class_frame)
  have e1: "visit_exprs kws (visit_exprs bases ?b1) = ?b1"
    using f by (simp add: visit_expr_unscoped)
  from "2.prems" have nf: "\<not> have_function body" by simp
  have ih: "current_function (visit_stmts body ?b1) = current_function ?b1
     \<and> calls_edges (graph (visit_stmts body ?b1)) = calls_edges (graph ?b1)"
    using "2.IH" [OF refl refl _ nf] f e1 by simp
  then have f2: "\<not> truthy (current_function (visit_stmts body ?b1))"
    using f by simp
  have "visit_stmt (ClassDef lineno nm bases kws body decorator_list) b
      = (visit_stmts body ?b1)\<lparr>current_class := current_class b\<rparr>"
    using e1 f2 by (simp add: Let_def visit_expr_unscoped)
  then show ?case
    using ih by (simp add: enter_class_frame)
next
  case (3 lineno names b)
  show ?case by (simp add: import_alias_frame)
next
  case (4 lineno modl names b)
  show ?case by (simp add: import_from_alias_frame)
next
  case (5 es ss b)
  then show ?case by (simp add: visit_expr_unscoped)
next
  case (6 b)
  show ?case by simp
next
  case (7 s ss b)
  then show ?case by simp
qed

lemma visit_expr_frame:
  "file_path (visit_expr e b) = file_path b \<and> module_nm (visit_expr e b) = module_nm b
   \<and> current_class (visit_expr e b) = current_class b
   \<and> current_function (visit_expr e b) = current_function b
   \<and> import_aliases (visit_expr e b) = import_aliases b
   \<and> set (cg_edges (graph b)) \<subseteq> set (cg_edges (graph (visit_expr e b)))"
  "file_path (visit_exprs es b) = file_path b \<and> module_nm (visit_exprs es b) = module_nm b
   \<and> current_class (visit_exprs es b) = current_class b
   \<and> current_function (visit_exprs es b) = current_function b
   \<and> import_aliases (visit_exprs es b) = import_aliases b
   \<and> set (cg_edges (graph b)) \<subseteq> set (cg_edges (graph (visit_exprs es b)))"
proof (induction e b and es b rule: visit_expr_visit_exprs.induct)
  case (3 lineno func args b)
  have "set (cg_edges (graph b)) \<subseteq> set (cg_edges (graph (enter_call lineno func b)))"
    by (auto simp: enter_call_def cg_add_edge_def split: option.splits)
  moreover have "file_path (enter_call lineno func b) = file_path b"
    "module_nm (enter_call lineno func b) = module_nm b"
    "current_class (enter_call lineno func b) = current_class b"
    "current_function (enter_call lineno func b) = current_function b"
    "import_aliases (enter_call lineno func b) = import_aliases b"
    by (simp_all add: enter_call_def split: option.splits)
  ultimately show ?case using 3 by auto
qed auto


lemma calls_edge_frame:
  "file_path b' = file_path b \<Longrightarrow> module_nm b' = module_nm b \<Longrightarrow>
   current_class b' = current_class b \<Longrightarrow> current_function b' = current_function b \<Longrightarrow>
   calls_edge b' c l = calls_edge b c l"
  by (simp add: calls_edge_def get_current_scope_def)

lemma visit_expr_emits:
  "truthy (current_function b) \<Longrightarrow> (line, f) \<in> set (calls_of_expr e) \<Longrightarrow>
   get_name (import_aliases b) f = Some callee \<Longrightarrow> callee \<noteq> [] \<Longrightarrow>
   calls_edge b callee line \<in> set (cg_edges (graph (visit_expr e b)))"
  "truthy (current_function b) \<Longrightarrow> (line, f) \<in> set (calls_of_exprs es) \<Longrightarrow>
   get_name (import_aliases b) f = Some callee \<Longrightarrow> callee \<noteq> [] \<Longrightarrow>
   calls_edge b callee line \<in> set (cg_edges (graph (visit_exprs es b)))"
proof (induction e b and es b rule: visit_expr_visit_exprs.induct)
  case (1 i b)
  then show ?case by simp
next
  case (2 v a b)
  then show ?case by simp
next
  case (3 lineno func args b)
  let ?b1 = "enter_call lineno func b"
  let ?b2 = "visit_expr func ?b1"
  have fr1: "file_path ?b1 = file_path b" "module_nm ?b1 = module_nm b"
    "current_class ?b1 = current_class b" "current_function ?b1 = current_function b"
    "import_aliases ?b1 = import_aliases b"
    by (simp_all add: enter_call_def split: option.splits)
  note fr2 = visit_expr_frame(1) [of func ?b1]
  have ce1: "calls_edge ?b1 callee line = calls_edge b callee line"
    by (rule calls_edge_frame) (simp_all add: fr1)
  have ce2: "calls_edge ?b2 callee line = calls_edge b callee line"
    using fr1 fr2 by (intro calls_edge_frame) simp_all
  from "3.prems"(2) consider "(line, f) = (lineno, func)" | "(line, f) \<in> set (calls_of_expr func)"
    | "(line, f) \<in> set (calls_of_exprs args)" by auto
  then show ?case
  proof cases
    case 1
    then have "calls_edge b callee line \<in> set (cg_edges (graph ?b1))"
      using "3.prems" by (simp add: enter_call_def cg_add_edge_def)
    also have "\<dots> \<subseteq> set (cg_edges (graph ?b2))"
      using fr2 by simp
    also have "\<dots> \<subseteq> set (cg_edges (graph (visit_exprs args ?b2)))"
      using visit_expr_frame(2) [of args ?b2] by simp
    finally show ?thesis by simp
  next
    case 2
    have "calls_edge ?b1 callee line \<in> set (cg_edges (graph ?b2))"
      using "3.IH"(1) [OF _ 2] "3.prems" fr1 by simp
    also have "set (cg_edges (graph ?b2)) \<subseteq> set (cg_edges (graph (visit_exprs args ?b2)))"
      using visit_expr_frame(2) [of args ?b2] by simp
    finally show ?thesis using ce1 by simp
  next
    case 3
    have "calls_edge ?b2 callee line \<in> set (cg_edges (graph (visit_exprs args ?b2)))"
      using "3.IH"(2) [OF _ 3] "3.prems" fr1 fr2 by simp
    then show ?thesis using ce2 by simp
  qed
next
  case (4 es b)
  then show ?case by simp
next
  case (5 b)
  then show ?case by simp
next
  case (6 e es b)
  let ?b1 = "visit_expr e b"
  note fr = visit_expr_frame(1) [of e b]
  have ce: "calls_edge ?b1 callee line = calls_edge b callee line"
    using fr by (intro calls_edge_frame) simp_all
  from "6.prems"(2) consider "(line, f) \<in> set (calls_of_expr e)"
    | "(line, f) \<in> set (calls_of_exprs es)" by auto
  then show ?case
  proof cases
    case 1
    have "calls_edge b callee line \<in> set (cg_edges (graph ?b1))"
      using "6.IH"(1) [OF "6.prems"(1) 1 "6.prems"(3,4)] .
    also have "set (cg_edges (graph ?b1)) \<subseteq> set (cg_edges (graph (visit_exprs es ?b1)))"
      using visit_expr_frame(2) [of es ?b1] by simp
    finally show ?thesis by simp
  next
    case 2
    have "calls_edge ?b1 callee line \<in> set (cg_edges (graph (visit_exprs es ?b1)))"
      using "6.IH"(2) [OF _ 2] "6.prems" fr by simp
    then show ?thesis using ce by simp
  qed
qed

lemma enter_function_frame:
  "file_path (enter_function l n b) = file_path b"
  "module_nm (enter_function l n b) = module_nm b"
  "current_class (enter_function l n b) = current_class b"
  "current_function (enter_function l n b) = current_function b"
  "import_aliases (enter_function l n b) = import_aliases b"
  "cg_edges (graph (enter_function l n b)) = cg_edges (graph b)"
  by (simp_all add: enter_function_def Let_def cg_add_node_def)

lemma add_base_site:
  "file_path (foldl (add_base l q) b bases) = file_path b
   \<and> module_nm (foldl (add_base l q) b bases) = module_nm b
   \<and> current_class (foldl (add_base l q) b bases) = current_class b
   \<and> current_function (foldl (add_base l q) b bases) = current_function b
   \<and> import_aliases (foldl (add_base l q) b bases) = import_aliases b
   \<and> set (cg_edges (graph b)) \<subseteq> set (cg_edges (graph (foldl (add_base l q) b bases)))"
proof (induction bases arbitrary: b)
  case Nil
  show ?case by simp
next
  case (Cons x xs)
  have "set (cg_edges (graph b)) \<subseteq> set (cg_edges (graph (add_base l q b x)))"
    by (auto simp: add_base_def cg_add_edge_def split: option.splits)
  moreover have "file_path (add_base l q b x) = file_path b"
    "module_nm (add_base l q b x) = module_nm b"
    "current_class (add_base l q b x) = current_class b"
    "current_function (add_base l q b x) = current_function b"
    "import_aliases (add_base l q b x) = import_aliases b"
    by (simp_all add: add_base_def split: option.splits)
  ultimately show ?case using Cons [of "add_base l q b x"] by auto
qed

lemma enter_class_site:
  "file_path (enter_class l n bases b) = file_path b
   \<and> module_nm (enter_class l n bases b) = module_nm b
   \<and> current_class (enter_class l n bases b) = current_class b
   \<and> current_function (enter_class l n bases b) = current_function b
   \<and> import_aliases (enter_class l n bases b) = import_aliases b
   \<and> set (cg_edges (graph b)) \<subseteq> set (cg_edges (graph (enter_class l n bases b)))"
proof -
  let ?b = "b\<lparr>graph := cg_add_node (graph b)
                 \<lparr>gn_name = n, gn_node_type = ''class'', gn_file = file_path b,
                  gn_line = l, qualified_name = module_nm b @ ''.'' @ n\<rparr>\<rparr>"
  have "enter_class l n bases b = foldl (add_base l (module_nm b @ ''.'' @ n)) ?b bases"
    by (simp add: enter_class_def Let_def)
  with add_base_site [of l "module_nm b @ ''.'' @ n" ?b bases] show ?thesis
    by (simp add: cg_add_node_def)
qed

lemma import_alias_site:
  "file_path (foldl (import_alias l) b names) = file_path b
   \<and> module_nm (foldl (import_alias l) b names) = module_nm b
   \<and> current_class (foldl (import_alias l) b names) = current_class b
   \<and> current_function (foldl (import_alias l) b names) = current_function b
   \<and> set (cg_edges (graph b)) \<subseteq> set (cg_edges (graph (foldl (import_alias l) b names)))
   \<and> (\<forall>r. r \<notin> set (map alias_key names) \<longrightarrow>
         map_of (import_aliases (foldl (import_alias l) b names)) r = map_of (import_aliases b) r)"
proof (induction names arbitrary: b)
  case Nil
  show ?case by simp
next
  case (Cons x xs)
  show ?case using Cons [of "import_alias l b x"]
    by (auto simp: import_alias_def cg_add_edge_def update_conv)
qed

lemma import_from_alias_site:
  "file_path (foldl (import_from_alias l m) b names) = file_path b
   \<and> module_nm (foldl (import_from_alias l m) b names) = module_nm b
   \<and> current_class (foldl (import_from_alias l m) b names) = current_class b
   \<and> current_function (foldl (import_from_alias l m) b names) = current_function b
   \<and> set (cg_edges (graph b)) \<subseteq> set (cg_edges (graph (foldl (import_from_alias l m) b names)))
   \<and> (\<forall>r. r \<notin> set (map alias_key names) \<longrightarrow>
         map_of (import_aliases (foldl (import_from_alias l m) b names)) r
           = map_of (import_aliases b) r)"
proof (induction names arbitrary: b)
  case Nil
  show ?case by simp
next
  case (Cons x xs)
  show ?case using Cons [of "import_from_alias l m b x"]
    by (auto simp: import_from_alias_def cg_add_edge_def update_conv)
qed

lemma visit_stmt_site:
  "file_path (visit_stmt s b) = file_path b \<and> module_nm (visit_stmt s b) = module_nm b
   \<and> current_class (visit_stmt s b) = current_class b
   \<and> current_function (visit_stmt s b) = current_function b"
  "file_path (visit_stmts ss b) = file_path b \<and> module_nm (visit_stmts ss b) = module_nm b
   \<and> current_class (visit_stmts ss b) = current_class b
   \<and> current_function (visit_stmts ss b) = current_function b"
proof (induction s b and ss b rule: visit_stmt_visit_stmts.induct)
  case (1 lineno nm args body decorator_list returns b)
  show ?case
    using "1.IH" [OF refl refl]
    by (simp add: Let_def visit_expr_frame enter_function_frame)
next
  case (2 lineno nm bases kws body decorator_list b)
  show ?case
    using "2.IH" [OF refl refl] enter_class_site [of lineno nm bases b]
    by (simp add: Let_def visit_expr_frame)
next
  case (3 lineno names b)
  show ?case using import_alias_site [of lineno b names] by simp
next
  case (4 lineno modl names b)
  show ?case using import_from_alias_site [of lineno "the modl" b names] by simp
next
  case (5 es ss b)
  show ?case using "5.IH" by (simp add: visit_expr_frame)
next
  case (6 b)
  show ?case by simp
next
  case (7 s ss b)
  show ?case using "7.IH" by simp
qed

lemma visit_stmt_edges:
  "set (cg_edges (graph b)) \<subseteq> set (cg_edges (graph (visit_stmt s b)))"
  "set (cg_edges (graph b)) \<subseteq> set (cg_edges (graph (visit_stmts ss b)))"
proof (induction s b and ss b rule: visit_stmt_visit_stmts.induct)
  case (1 lineno nm args body decorator_list returns b)
  let ?b2 = "(enter_function lineno nm b)\<lparr>current_function := Some nm\<rparr>"
  let ?b3 = "visit_exprs args ?b2"
  let ?b4 = "visit_stmts body ?b3"
  let ?b5 = "visit_exprs decorator_list ?b4"
  let ?b6 = "visit_exprs returns ?b5"
  have "set (cg_edges (graph b)) \<subseteq> set (cg_edges (graph ?b2))"
    by (simp add: enter_function_frame)
  also have "\<dots> \<subseteq> set (cg_edges (graph ?b3))"
    using visit_expr_frame(2) [of args ?b2] by simp
  also have "\<dots> \<subseteq> set (cg_edges (graph ?b4))"
    by (rule "1.IH" [OF refl refl])
  also have "\<dots> \<subseteq> set (cg_edges (graph ?b5))"
    using visit_expr_frame(2) [of decorator_list ?b4] by simp
  also have "\<dots> \<subseteq> set (cg_edges (graph ?b6))"
    using visit_expr_frame(2) [of returns ?b5] by simp
  finally show ?case by (simp add: Let_def)
next
  case (2 lineno nm bases kws body decorator_list b)
  let ?b2 = "(enter_class lineno nm bases b)\<lparr>current_class := Some nm\<rparr>"
  let ?b3a = "visit_exprs bases ?b2"
  let ?b3 = "visit_exprs kws ?b3a"
  let ?b4 = "visit_stmts body ?b3"
  let ?b5 = "visit_exprs decorator_list ?b4"
  have "set (cg_edges (graph b)) \<subseteq> set (cg_edges (graph ?b2))"
    using enter_class_site [of lineno nm bases b] by simp
  also have "\<dots> \<subseteq> set (cg_edges (graph ?b3a))"
    using visit_expr_frame(2) [of bases ?b2] by simp
  also have "\<dots> \<subseteq> set (cg_edges (graph ?b3))"
    using visit_expr_frame(2) [of kws ?b3a] by simp
  also have "\<dots> \<subseteq> set (cg_edges (graph ?b4))"
    by (rule "2.IH" [OF refl refl])
  also have "\<dots> \<subseteq> set (cg_edges (graph ?b5))"
    using visit_expr_frame(2) [of decorator_list ?b4] by simp
  finally show ?case by (simp add: Let_def)
next
  case (3 lineno names b)
  show ?case using import_alias_site [of lineno b names] by simp
next
  case (4 lineno modl names b)
  show ?case using import_from_alias_site [of lineno "the modl" b names] by simp
next
  case (5 es ss b)
  have "set (cg_edges (graph b)) \<subseteq> set (cg_edges (graph (visit_exprs es b)))"
    using visit_expr_frame(2) [of es b] by simp
  also have "\<dots> \<subseteq> set (cg_edges (graph (visit_stmts ss (visit_exprs es b))))"
    by (rule "5.IH")
  finally show ?case by simp
next
  case (6 b)
  show ?case by simp
next
  case (7 s ss b)
  have "set (cg_edges (graph b)) \<subseteq> set (cg_edges (graph (visit_stmt s b)))"
    by (rule "7.IH"(1))
  also have "\<dots> \<subseteq> set (cg_edges (graph (visit_stmts ss (visit_stmt s b))))"
    by (rule "7.IH"(2))
  finally show ?case by simp
qed

lemma visit_stmt_aliases:
  "r \<notin> set (bound_names s) \<Longrightarrow>
     map_of (import_aliases (visit_stmt s b)) r = map_of (import_aliases b) r"
  "r \<notin> set (bound_names_list ss) \<Longrightarrow>
     map_of (import_aliases (visit_stmts ss b)) r = map_of (import_aliases b) r"
proof (induction s b and ss b rule: visit_stmt_visit_stmts.induct)
  case (1 lineno nm args body decorator_list returns b)
  then show ?case
    using "1.IH" [OF refl refl]
    by (simp add: Let_def visit_expr_frame enter_function_frame)
next
  case (2 lineno nm bases kws body decorator_list b)
  then show ?case
    using "2.IH" [OF refl refl] enter_class_site [of lineno nm bases b]
    by (simp add: Let_def visit_expr_frame)
next
  case (3 lineno names b)
  then show ?case using import_alias_site [of lineno b names] by simp
next
  case (4 lineno modl names b)
  then show ?case using import_from_alias_site [of lineno "the modl" b names] by simp
next
  case (5 es ss b)
  then show ?case by (simp add: visit_expr_frame)
next
  case (6 b)
  show ?case by simp
next
  case (7 s ss b)
  then show ?case by simp
qed

lemma attr_parts_root:
  "(\<And>r. root_name f = Some r \<Longrightarrow> map_of imps' r = map_of imps r) \<Longrightarrow>
     attr_parts imps' f = attr_parts imps f"
  by (induction imps f rule: attr_parts.induct) (simp_all add: resolve_def)

lemma get_name_root:
  assumes "\<And>r. root_name f = Some r \<Longrightarrow> map_of imps' r = map_of imps r"
  shows "get_name imps' f = get_name imps f"
proof (cases f)
  case (Name i)
  with assms show ?thesis by (simp add: resolve_def)
next
  case (Attribute v a)
  with assms have "attr_parts imps' v = attr_parts imps v"
    by (intro attr_parts_root) simp
  with Attribute show ?thesis by simp
qed simp_all

lemma visit_stmt_emits:
  "truthy (current_function b) \<Longrightarrow> (line, f) \<in> set (direct_calls s) \<Longrightarrow>
   get_name (import_aliases b) f = Some callee \<Longrightarrow> callee \<noteq> [] \<Longrightarrow>
   (\<And>r. root_name f = Some r \<Longrightarrow> r \<notin> set (bound_names s)) \<Longrightarrow>
   calls_edge b callee line \<in> set (cg_edges (graph (visit_stmt s b)))"
  "truthy (current_function b) \<Longrightarrow> (line, f) \<in> set (direct_calls_list ss) \<Longrightarrow>
   get_name (import_aliases b) f = Some callee \<Longrightarrow> callee \<noteq> [] \<Longrightarrow>
   (\<And>r. root_name f = Some r \<Longrightarrow> r \<notin> set (bound_names_list ss)) \<Longrightarrow>
   calls_edge b callee line \<in> set (cg_edges (graph (visit_stmts ss b)))"
proof (induction s b and ss b rule: visit_stmt_visit_stmts.induct)
  case (1 lineno nm args body decorator_list returns b)
  then show ?case by simp
next
  case (2 lineno nm bases kws body decorator_list b)
  then show ?case by simp
next
  case (3 lineno names b)
  then show ?case by simp
next
  case (4 lineno modl names b)
  then show ?case by simp
next
  case (5 es ss b)
  let ?b1 = "visit_exprs es b"
  note fr = visit_expr_frame(2) [of es b]
  have ce: "calls_edge ?b1 callee line = calls_edge b callee line"
    using fr by (intro calls_edge_frame) simp_all
  from "5.prems"(2) consider "(line, f) \<in> set (calls_of_exprs es)"
    | "(line, f) \<in> set (direct_calls_list ss)" by auto
  then show ?case
  proof cases
    case 1
    have "calls_edge b callee line \<in> set (cg_edges (graph ?b1))"
      using visit_expr_emits(2) [OF "5.prems"(1) 1 "5.prems"(3,4)] .
    also have "set (cg_edges (graph ?b1)) \<subseteq> set (cg_edges (graph (visit_stmts ss ?b1)))"
      by (rule visit_stmt_edges)
    finally show ?thesis by simp
  next
    case 2
    have "calls_edge ?b1 callee line \<in> set (cg_edges (graph (visit_stmts ss ?b1)))"
    proof (rule "5.IH" [OF _ 2 _ "5.prems"(4)])
      show "truthy (current_function ?b1)" using fr "5.prems"(1) by simp
      show "get_name (import_aliases ?b1) f = Some callee" using fr "5.prems"(3) by simp
      show "\<And>r. root_name f = Some r \<Longrightarrow> r \<notin> set (bound_names_list ss)"
        using "5.prems"(5) by simp
    qed
    then show ?thesis using ce by simp
  qed
next
  case (6 b)
  then show ?case by simp
next
  case (7 s ss b)
  let ?b1 = "visit_stmt s b"
  note fr = visit_stmt_site(1) [of s b]
  have ce: "calls_edge ?b1 callee line = calls_edge b callee line"
    using fr by (intro calls_edge_frame) simp_all
  have nb: "root_name f = Some r \<Longrightarrow> r \<notin> set (bound_names s)"
    and nbs: "root_name f = Some r \<Longrightarrow> r \<notin> set (bound_names_list ss)" for r
    using "7.prems"(5) [of r] by simp_all
  from "7.prems"(2) consider "(line, f) \<in> set (direct_calls s)"
    | "(line, f) \<in> set (direct_calls_list ss)" by auto
  then show ?case
  proof cases
    case 1
    have "calls_edge b callee line \<in> set (cg_edges (graph ?b1))"
      using "7.IH"(1) [OF "7.prems"(1) 1 "7.prems"(3,4)] nb by blast
    also have "set (cg_edges (graph ?b1)) \<subseteq> set (cg_edges (graph (visit_stmts ss ?b1)))"
      by (rule visit_stmt_edges)
    finally show ?thesis by simp
  next
    case 2
    have g: "get_name (import_aliases ?b1) f = get_name (import_aliases b) f"
      by (rule get_name_root) (rule visit_stmt_aliases(1), rule nb)
    have "calls_edge ?b1 callee line \<in> set (cg_edges (graph (visit_stmts ss ?b1)))"
    proof (rule "7.IH"(2) [OF _ 2 _ "7.prems"(4)])
      show "truthy (current_function ?b1)" using fr "7.prems"(1) by simp
      show "get_name (import_aliases ?b1) f = Some callee" using g "7.prems"(3) by simp
      show "\<And>r. root_name f = Some r \<Longrightarrow> r \<notin> set (bound_names_list ss)"
        by (rule nbs)
    qed
    then show ?thesis using ce by simp
  qed
qed

lemma attr_parts_chain:
  "attr_parts imps (foldl Attribute e as) = rev as @ attr_parts imps e"
  by (induction as arbitrary: e) simp_all

lemma get_name_chain:
  "get_name imps (foldl Attribute (Name r) (a # as)) = Some (join_dots (resolve imps r # a # as))"
proof -
  have "foldl Attribute (Name r) (a # as) = foldl Attribute (Attribute (Name r) a) as"
    by simp
  moreover have "get_name imps (foldl Attribute (Attribute v a) as)
      = Some (join_dots (rev (attr_parts imps (foldl Attribute (Attribute v a) as))))" for v
    by (induction as arbitrary: v a rule: rev_induct) simp_all
  ultimately show ?thesis
    by (simp add: attr_parts_chain)
qed

text \<open>
  C9, as the code has it. The callee of a call is resolved by \<^verbatim>\<open>_get_name\<close>: a bare name
  \<open>f\<close> becomes the entry of the alias table for \<open>f\<close>, or \<open>f\<close> itself when there is none; in
  a dotted chain the root identifier is replaced in the same way. When the visitor
  reaches the definition of a function \<open>g\<close> that is not inside a class, every call in the
  body of \<open>g\<close> that lies in no nested definition, and whose callee has a name, yields a
  \<^verbatim>\<open>calls\<close> edge from \<open>m.g\<close> to the callee as the alias table resolves it at that
  moment, provided no import statement in the body binds the root of the callee
  anew. The alias table holds the imports that the traversal has visited so far.
\<close>

theorem call_edge_emitted:
  "get_name imps (Name f) = Some (case map_of imps f of None \<Rightarrow> f | Some t \<Rightarrow> t)
   \<and> get_name imps (foldl Attribute (Name r) (a # as))
       = Some (join_dots ((case map_of imps r of None \<Rightarrow> r | Some t \<Rightarrow> t) # a # as))
   \<and> (g \<noteq> [] \<longrightarrow> \<not> truthy (current_class b) \<longrightarrow>
        (line, func) \<in> set (direct_calls_list body) \<longrightarrow>
        get_name (import_aliases b) func = Some callee \<longrightarrow> callee \<noteq> [] \<longrightarrow>
        (\<forall>x. root_name func = Some x \<longrightarrow> x \<notin> set (bound_names_list body)) \<longrightarrow>
        \<lparr>ge_source = module_nm b @ ''.'' @ g, ge_target = callee, edge_type = ''calls'',
          ge_file = file_path b, ge_line = line\<rparr>
          \<in> set (cg_edges (graph
                (visit_stmt (FunctionDef lineno g args body decorator_list returns) b))))"
proof (intro conjI impI)
  show "get_name imps (Name f) = Some (case map_of imps f of None \<Rightarrow> f | Some t \<Rightarrow> t)"
    by (simp add: resolve_def)
next
  show "get_name imps (foldl Attribute (Name r) (a # as))
       = Some (join_dots ((case map_of imps r of None \<Rightarrow> r | Some t \<Rightarrow> t) # a # as))"
    using get_name_chain [of imps r a as] by (simp add: resolve_def)
next
  assume g: "g \<noteq> []" and c: "\<not> truthy (current_class b)"
    and m: "(line, func) \<in> set (direct_calls_list body)"
    and n: "get_name (import_aliases b) func = Some callee" and ne: "callee \<noteq> []"
    and nb: "\<forall>x. root_name func = Some x \<longrightarrow> x \<notin> set (bound_names_list body)"
  let ?b2 = "(enter_function lineno g b)\<lparr>current_function := Some g\<rparr>"
  let ?b3 = "visit_exprs args ?b2"
  let ?b4 = "visit_stmts body ?b3"
  let ?b5 = "visit_exprs decorator_list ?b4"
  let ?b6 = "visit_exprs returns ?b5"
  note f3 = visit_expr_frame(2) [of args ?b2]
  have t3: "truthy (current_function ?b3)"
    using f3 g by (simp add: truthy_def)
  have n3: "get_name (import_aliases ?b3) func = Some callee"
    using f3 n by (simp add: enter_function_frame)
  have e3: "calls_edge ?b3 callee line
      = \<lparr>ge_source = module_nm b @ ''.'' @ g, ge_target = callee, edge_type = ''calls'',
          ge_file = file_path b, ge_line = line\<rparr>"
    using f3 c g
    by (simp add: calls_edge_def get_current_scope_def enter_function_frame truthy_def)
  have "calls_edge ?b3 callee line \<in> set (cg_edges (graph ?b4))"
    using visit_stmt_emits(2) [OF t3 m n3 ne] nb by blast
  also have "set (cg_edges (graph ?b4)) \<subseteq> set (cg_edges (graph ?b5))"
    using visit_expr_frame(2) [of decorator_list ?b4] by simp
  also have "\<dots> \<subseteq> set (cg_edges (graph ?b6))"
    using visit_expr_frame(2) [of returns ?b5] by simp
  finally show "\<lparr>ge_source = module_nm b @ ''.'' @ g, ge_target = callee, edge_type = ''calls'',
          ge_file = file_path b, ge_line = line\<rparr>
          \<in> set (cg_edges (graph
                (visit_stmt (FunctionDef lineno g args body decorator_list returns) b)))"
    unfolding e3 by (simp add: Let_def)
qed

theorem call_edge_emitted_witness:
  "''g'' \<noteq> [] \<and> \<not> truthy (current_class example_builder)
   \<and> (5, Attribute (Attribute (Name ''np'') ''linalg'') ''norm'') \<in> set (direct_calls_list example_body)
   \<and> get_name (import_aliases example_builder) (Attribute (Attribute (Name ''np'') ''linalg'') ''norm'')
        = Some ''numpy.linalg.norm''
   \<and> ''numpy.linalg.norm'' \<noteq> []
   \<and> ''np'' \<notin> set (bound_names_list example_body)
   \<and> \<lparr>ge_source = ''m.g'', ge_target = ''numpy.linalg.norm'', edge_type = ''calls'',
        ge_file = ''/repo/m.py'', ge_line = 5\<rparr>
        \<in> set (cg_edges (graph (visit_stmt (FunctionDef 4 ''g'' [] example_body [] []) example_builder)))"
proof -
  let ?f = "Attribute (Attribute (Name ''np'') ''linalg'') ''norm''"
  have c: "\<not> truthy (current_class example_builder)"
    by code_simp
  have m: "(5, ?f) \<in> set (direct_calls_list example_body)"
    by code_simp
  have n: "get_name (import_aliases example_builder) ?f = Some ''numpy.linalg.norm''"
    by code_simp
  have nb: "''np'' \<notin> set (bound_names_list example_body)"
    by code_simp
  then have nb': "\<forall>x. root_name ?f = Some x \<longrightarrow> x \<notin> set (bound_names_list example_body)"
    by simp
  have mn: "module_nm example_builder = ''m''" "file_path example_builder = ''/repo/m.py''"
    by code_simp+
  from call_edge_emitted [of "import_aliases example_builder" "''f''" "''np''" "''linalg''"
      "[''norm'']" "''g''" example_builder 5 ?f example_body "''numpy.linalg.norm''" 4 "[]" "[]" "[]"]
    c m n nb'
  have "\<lparr>ge_source = module_nm example_builder @ ''.'' @ ''g'', ge_target = ''numpy.linalg.norm'',
        edge_type = ''calls'', ge_file = file_path example_builder, ge_line = 5\<rparr>
        \<in> set (cg_edges (graph (visit_stmt (FunctionDef 4 ''g'' [] example_body [] []) example_builder)))"
    by simp
  then have "\<lparr>ge_source = ''m.g'', ge_target = ''numpy.linalg.norm'', edge_type = ''calls'',
        ge_file = ''/repo/m.py'', ge_line = 5\<rparr>
        \<in> set (cg_edges (graph (visit_stmt (FunctionDef 4 ''g'' [] example_body [] []) example_builder)))"
    unfolding mn by simp
  with c m n nb show ?thesis by simp
qed

text \<open>
  The claim C9 as it is worded fails in two places. An import that follows the function
  binds \<open>f\<close> in the file, yet the edge of the earlier call keeps the bare name \<open>f\<close>. A
  call in a function nested in \<open>g\<close> lies in the body of \<open>g\<close>, yet its edge starts at the
  nested function, and no edge starts at \<open>m.g\<close>.
\<close>

theorem call_edge_not_resolved:
  "map_of (import_aliases (visit_stmts late_import_example
        (new_builder (empty_call_graph ''/repo'') ''/repo/m.py'' ''m''))) ''f'' = Some ''x.f''
   \<and> calls_edges (visit_module (empty_call_graph ''/repo'') ''/repo/m.py'' ''m.py'' ''m''
        late_import_example)
      = [\<lparr>ge_source = ''m.g'', ge_target = ''f'', edge_type = ''calls'',
          ge_file = ''/repo/m.py'', ge_line = 2\<rparr>]
   \<and> calls_edges (visit_module (empty_call_graph ''/repo'') ''/repo/m.py'' ''m.py'' ''m''
        nested_example)
      = [\<lparr>ge_source = ''m.h'', ge_target = ''f'', edge_type = ''calls'',
          ge_file = ''/repo/m.py'', ge_line = 3\<rparr>]"
  by code_simp

lemma attr_parts_strip_base: "attr_parts imps (strip_base e) = attr_parts imps e"
  by (induction imps e rule: attr_parts.induct) simp_all

lemma get_name_strip_base: "get_name imps (strip_base e) = get_name imps e"
  by (cases e) (simp_all add: attr_parts_strip_base)

lemma add_base_strip:
  "foldl (add_base l q) b (map strip_base bases) = foldl (add_base l q) b bases"
  by (induction bases arbitrary: b) (simp_all add: add_base_def get_name_strip_base)

lemma enter_class_strip:
  "enter_class l n (map strip_base bases) b = enter_class l n bases b"
  by (simp add: enter_class_def Let_def add_base_strip)

lemma visit_stmt_strip:
  "\<not> truthy (current_function b) \<Longrightarrow> visit_stmt (strip_stmt s) b = visit_stmt s b"
  "\<not> truthy (current_function b) \<Longrightarrow> visit_stmts (strip_stmts ss) b = visit_stmts ss b"
proof (induction s b and ss b rule: visit_stmt_visit_stmts.induct)
  case (1 lineno nm args body decorator_list returns b)
  show ?case by simp
next
  case (2 lineno nm bases kws body decorator_list b)
  let ?b1 = "(enter_class lineno nm bases b)\<lparr>current_class := Some nm\<rparr>"
  have f: "\<not> truthy (current_function ?b1)"
    using "2.prems" enter_class_site [of lineno nm bases b] by simp
  have e1: "visit_exprs kws (visit_exprs bases ?b1) = ?b1"
    using f by (simp add: visit_expr_unscoped)
  have e1': "visit_exprs [] (visit_exprs (map strip_base bases) ?b1) = ?b1"
    using f by (simp add: visit_expr_unscoped)
  have ih: "visit_stmts (strip_stmts body) ?b1 = visit_stmts body ?b1"
    using "2.IH" [OF refl refl] f e1 by simp
  have f2: "\<not> truthy (current_function (visit_stmts body ?b1))"
    using f visit_stmt_site(2) [of body ?b1] by simp
  have "visit_stmt (ClassDef lineno nm bases kws body decorator_list) b
      = (visit_stmts body ?b1)\<lparr>current_class := current_class b\<rparr>"
    using e1 f2 by (simp add: Let_def visit_expr_unscoped)
  moreover have "visit_stmt (strip_stmt (ClassDef lineno nm bases kws body decorator_list)) b
      = (visit_stmts (strip_stmts body) ?b1)\<lparr>current_class := current_class b\<rparr>"
    using e1' by (simp add: Let_def enter_class_strip)
  ultimately show ?case using ih by simp
next
  case (3 lineno names b)
  show ?case by simp
next
  case (4 lineno modl names b)
  show ?case by simp
next
  case (5 es ss b)
  then show ?case by (simp add: visit_expr_unscoped)
next
  case (6 b)
  show ?case by simp
next
  case (7 s ss b)
  have "\<not> truthy (current_function (visit_stmt s b))"
    using "7.prems" visit_stmt_site(1) [of s b] by simp
  with "7.IH" "7.prems" show ?case by simp
qed

text \<open>
  C10, as the code has it. While no function is current, the visit of an expression,
  with every call in it, leaves the builder as it is. So the extractor returns the same
  graph when every expression that lies in no function definition is removed from the
  tree: the calls at the top level of the module, in class bodies, in bases and in
  decorators of classes add nothing. In particular a tree with no function definition
  adds no \<^verbatim>\<open>calls\<close> edge. A call that stands in a function definition outside the body
  (a decorator, a default, an annotation) is visited while that function is current and
  is not dropped.
\<close>

theorem unscoped_calls_dropped:
  "(\<not> truthy (current_function b) \<longrightarrow> visit_expr e b = b)
   \<and> (\<not> truthy (current_function b) \<longrightarrow> visit_stmts (strip_stmts ss) b = visit_stmts ss b)
   \<and> visit_module g p n m (strip_stmts tree) = visit_module g p n m tree
   \<and> (\<not> truthy (current_function b) \<longrightarrow> \<not> have_function ss \<longrightarrow>
        calls_edges (graph (visit_stmts ss b)) = calls_edges (graph b))
   \<and> (\<not> have_function tree \<longrightarrow> calls_edges (visit_module g p n m tree) = calls_edges g)"
proof (intro conjI impI)
  assume "\<not> truthy (current_function b)"
  then show "visit_expr e b = b" by (rule visit_expr_unscoped)
next
  assume "\<not> truthy (current_function b)"
  then show "visit_stmts (strip_stmts ss) b = visit_stmts ss b" by (rule visit_stmt_strip)
next
  let ?g = "cg_add_node g \<lparr>gn_name = n, gn_node_type = ''module'', gn_file = p,
                             gn_line = 1, qualified_name = m\<rparr>"
  have "\<not> truthy (current_function (new_builder ?g p m))"
    by (simp add: new_builder_def truthy_def)
  from visit_stmt_strip(2) [OF this, of tree]
  show "visit_module g p n m (strip_stmts tree) = visit_module g p n m tree"
    by (simp add: visit_module_def Let_def)
next
  assume "\<not> truthy (current_function b)" "\<not> have_function ss"
  then show "calls_edges (graph (visit_stmts ss b)) = calls_edges (graph b)"
    by (simp add: visit_stmt_unscoped)
next
  assume nf: "\<not> have_function tree"
  let ?g = "cg_add_node g \<lparr>gn_name = n, gn_node_type = ''module'', gn_file = p,
                             gn_line = 1, qualified_name = m\<rparr>"
  have "\<not> truthy (current_function (new_builder ?g p m))"
    by (simp add: new_builder_def truthy_def)
  from visit_stmt_unscoped(2) [OF this nf]
  show "calls_edges (visit_module g p n m tree) = calls_edges g"
    by (simp add: visit_module_def Let_def new_builder_def calls_edges_add_node)
qed

theorem unscoped_calls_dropped_witness:
  "\<not> truthy (current_function (new_builder (empty_call_graph ''/repo'') ''/repo/m.py'' ''m''))
   \<and> \<not> have_function unscoped_example
   \<and> visit_expr (Call 2 (Name ''setup'') [Call 2 (Name ''options'') []])
        (new_builder (empty_call_graph ''/repo'') ''/repo/m.py'' ''m'')
      = new_builder (empty_call_graph ''/repo'') ''/repo/m.py'' ''m''
   \<and> calls_edges (graph (visit_stmts unscoped_example
        (new_builder (empty_call_graph ''/repo'') ''/repo/m.py'' ''m''))) = []
   \<and> calls_edges (visit_module (empty_call_graph ''/repo'') ''/repo/m.py'' ''m.py'' ''m''
        unscoped_example) = []
   \<and> visit_module (empty_call_graph ''/repo'') ''/repo/m.py'' ''m.py'' ''m''
        (strip_stmts example_module)
      = visit_module (empty_call_graph ''/repo'') ''/repo/m.py'' ''m.py'' ''m'' example_module"
proof -
  let ?b = "new_builder (empty_call_graph ''/repo'') ''/repo/m.py'' ''m''"
  have t: "\<not> truthy (current_function ?b)"
    by (simp add: new_builder_def truthy_def)
  have nf: "\<not> have_function unscoped_example"
    by (simp add: unscoped_example_def)
  have z: "calls_edges (graph ?b) = []" "calls_edges (empty_call_graph ''/repo'') = []"
    by (simp_all add: new_builder_def calls_edges_def empty_call_graph_def)
  note u = unscoped_calls_dropped [of ?b "Call 2 (Name ''setup'') [Call 2 (Name ''options'') []]"
      unscoped_example "empty_call_graph ''/repo''" "''/repo/m.py''" "''m.py''" "''m''"
      unscoped_example]
  from u t have a: "visit_expr (Call 2 (Name ''setup'') [Call 2 (Name ''options'') []]) ?b = ?b"
    by blast
  from u t nf have b: "calls_edges (graph (visit_stmts unscoped_example ?b)) = calls_edges (graph ?b)"
    by blast
  from u nf have c: "calls_edges (visit_module (empty_call_graph ''/repo'') ''/repo/m.py'' ''m.py'' ''m''
        unscoped_example) = calls_edges (empty_call_graph ''/repo'')"
    by blast
  from unscoped_calls_dropped [of ?b "Name ''setup''" "[]" "empty_call_graph ''/repo''"
      "''/repo/m.py''" "''m.py''" "''m''" example_module]
  have d: "visit_module (empty_call_graph ''/repo'') ''/repo/m.py'' ''m.py'' ''m''
        (strip_stmts example_module)
      = visit_module (empty_call_graph ''/repo'') ''/repo/m.py'' ''m.py'' ''m'' example_module"
    by blast
  from t nf a b c d z show ?thesis by simp
qed

text \<open>
  The claim C10 as it is worded fails for a call that stands in a function definition but
  not in its body: the function \<open>g\<close> has an empty body and the decorator
  \<^verbatim>\<open>@deco()\<close> at module top level, and the extractor emits the edge from \<open>m.g\<close> to
  \<^verbatim>\<open>deco\<close>.
\<close>

theorem decorator_call_emitted:
  "decorated_example = [FunctionDef 2 ''g'' [] [] [Call 1 (Name ''deco'') []] []]
   \<and> calls_edges (visit_module (empty_call_graph ''/repo'') ''/repo/m.py'' ''m.py'' ''m''
        decorated_example)
      = [\<lparr>ge_source = ''m.g'', ge_target = ''deco'', edge_type = ''calls'',
          ge_file = ''/repo/m.py'', ge_line = 1\<rparr>]"
  by code_simp

end
